theory Spec2Isabelle
  imports Main "HOL-Library.Sublist" "HOL-Library.AList" "HOL-Library.Multiset"
begin

section \<open>Python strings\<close>

text \<open>
  A Python \<open>str\<close> is modelled as a \<open>string\<close> (a list of characters).  The functions of
  this section are the string methods that \<open>lib/utils.py\<close> calls: \<open>str.lower\<close>,
  \<open>str.find\<close>, slicing \<open>s[i:]\<close>, \<open>str.split\<close>, \<open>str.join\<close>, \<open>str.startswith\<close> and
  \<open>str.replace\<close>.
\<close>

text \<open>
  \<open>str.lower\<close> on ASCII text: each of the letters \<open>A\<close> to \<open>Z\<close> moves to its lower-case
  letter, every other character stays.
\<close>

definition ascii_uppercase :: string where
  "ascii_uppercase = ''ABCDEFGHIJKLMNOPQRSTUVWXYZ''"

definition ascii_lowercase :: string where
  "ascii_lowercase = ''abcdefghijklmnopqrstuvwxyz''"

definition lower_char :: "char \<Rightarrow> char" where
  "lower_char c =
     (case map_of (zip ascii_uppercase ascii_lowercase) c of
        Some d \<Rightarrow> d
      | None \<Rightarrow> c)"

definition lower :: "string \<Rightarrow> string" where
  "lower s = map lower_char s"

text \<open>
  \<open>s.find(sub)\<close>: the index of the first occurrence of \<open>sub\<close> in \<open>s\<close>, or \<open>-1\<close>.
  The empty string is found at index 0.
\<close>

fun py_find :: "string \<Rightarrow> string \<Rightarrow> int" where
  "py_find [] sub = (if sub = [] then 0 else - 1)"
| "py_find (c # cs) sub =
     (if prefix sub (c # cs) then 0
      else (let r = py_find cs sub in if r < 0 then - 1 else r + 1))"

text \<open>\<open>s[i:]\<close> for an index \<open>i \<ge> 0\<close>.\<close>

definition slice_from :: "string \<Rightarrow> int \<Rightarrow> string" where
  "slice_from s i = drop (nat i) s"

text \<open>\<open>s.split(sep)\<close> for a separator of one character: never an empty list.\<close>

fun py_split :: "char \<Rightarrow> string \<Rightarrow> string list" where
  "py_split sep [] = [[]]"
| "py_split sep (c # cs) =
     (if c = sep then [] # py_split sep cs
      else (case py_split sep cs of
              [] \<Rightarrow> [[c]]
            | w # ws \<Rightarrow> (c # w) # ws))"

text \<open>\<open>sep.join(xs)\<close>.\<close>

fun py_join :: "string \<Rightarrow> string list \<Rightarrow> string" where
  "py_join sep [] = []"
| "py_join sep [x] = x"
| "py_join sep (x # y # ys) = x @ sep @ py_join sep (y # ys)"

text \<open>
  \<open>s.replace(old, new)\<close>: every occurrence of \<open>old\<close>, found from left to right without
  overlap, is replaced at once.  For an empty \<open>old\<close> Python inserts \<open>new\<close> before every
  character and at the end.
\<close>

function py_replace :: "string \<Rightarrow> string \<Rightarrow> string \<Rightarrow> string" where
  "py_replace s old new =
     (if old = [] then new @ concat (map (\<lambda>c. c # new) s)
      else if s = [] then []
      else if prefix old s then new @ py_replace (drop (length old) s) old new
      else hd s # py_replace (tl s) old new)"
  by pat_completeness auto
termination
  by (relation "measure (\<lambda>(s, old, new). length s)") auto

declare py_replace.simps [simp del]

section \<open>TypeMapper\<close>

text \<open>
  \<open>metamodel_to_swagger_type_converter\<close>: the pair of the Swagger type and its format;
  the format \<open>None\<close> of the source is \<open>None\<close> here.
\<close>

definition metamodel_to_swagger_type_converter :: "string \<Rightarrow> string \<times> string option" where
  "metamodel_to_swagger_type_converter input_type0 =
     (let input_type = lower input_type0 in
      if input_type = ''date_time'' then (''string'', Some ''date-time'')
      else if input_type = ''secret'' then (''string'', Some ''password'')
      else if input_type = ''any_error'' then (''string'', None)
      else if input_type = ''opaque'' then (''object'', None)
      else if input_type = ''dynamic_structure'' then (''object'', None)
      else if input_type = ''uri'' then (''string'', Some ''uri'')
      else if input_type = ''id'' then (''string'', None)
      else if input_type = ''long'' then (''integer'', Some ''int64'')
      else if input_type = ''double'' then (''number'', Some ''double'')
      else if input_type = ''binary'' then (''string'', Some ''binary'')
      else (input_type, None))"

text \<open>The ten names that the converter translates.\<close>

definition translated_types :: "string list" where
  "translated_types =
     [''date_time'', ''secret'', ''any_error'', ''opaque'', ''dynamic_structure'',
      ''uri'', ''id'', ''long'', ''double'', ''binary'']"

text \<open>The set literal \<open>typeset\<close> of \<open>is_type_builtin\<close>, in the order of the source.\<close>

definition typeset :: "string list" where
  "typeset =
     [''binary'', ''boolean'', ''datetime'', ''double'', ''dynamicstructure'',
      ''exception'', ''id'', ''long'', ''opaque'', ''secret'', ''string'', ''uri'']"

definition is_type_builtin :: "string \<Rightarrow> bool" where
  "is_type_builtin type0 = (let type1 = lower type0 in if type1 \<in> set typeset then True else False)"

section \<open>PathObjectBuilder: tags and query strings\<close>

definition TAG_SEPARATOR :: string where
  "TAG_SEPARATOR = ''/''"

definition tags_from_service_name :: "string \<Rightarrow> string list" where
  "tags_from_service_name service_name =
     [py_join TAG_SEPARATOR (drop 3 (py_split (CHR ''.'') service_name))]"

definition add_query_param :: "string \<Rightarrow> string \<Rightarrow> string" where
  "add_query_param url param =
     (let query_index = py_find url ''?'' in
      if query_index > - 1 then
        (if query_index = int (length url) then url @ '''' @ param
         else if py_find (slice_from url (query_index + 1)) param > - 1 then url
         else url @ ''&'' @ param)
      else url @ ''?'' @ param)"

section \<open>Exceptions\<close>

text \<open>
  The exceptions that the modelled functions can raise.  A function that can raise returns
  \<open>py_error + 'a\<close>, with \<open>Inl\<close> for the exception.  \<open>NotFound\<close> is the error of the
  component service for an unknown component identifier.
\<close>

datatype py_error = KeyError | ValueError | TypeError | AttributeError | NotFound

section \<open>The metamodel\<close>

text \<open>
  A parameter (\<open>field_info\<close>) has a name and a metadata dictionary from a tag name to a
  payload, which holds a dictionary \<open>elements\<close> of named element values with a
  \<open>string_value\<close>.  A dictionary is an association list read with \<open>map_of\<close>.  A payload
  and a \<open>string_value\<close> can be Python's \<open>None\<close>, which is \<open>None\<close> here.
\<close>

record element_value =
  string_value :: "string option"

record element_map =
  elements :: "(string \<times> element_value) list"

type_synonym metadata_map = "(string \<times> element_map option) list"

record field_info =
  name :: string
  metadata :: metadata_map

section \<open>ParameterClassifier: path reconciliation\<close>

text \<open>
  The regular expression \<open>{(.+?)}\<close>.  After an opening brace the group takes one
  character that is not a newline, then as few further characters as possible up to a
  closing brace; the dot never matches a newline.  \<open>match_group s\<close> is the group when the
  pattern matches right after an opening brace that is followed by \<open>s\<close>.
\<close>

definition newline :: char where
  "newline = CHR 0x0A"

fun lazy_tail :: "string \<Rightarrow> string option" where
  "lazy_tail [] = None"
| "lazy_tail (d # r) =
     (if d = CHR ''}'' then Some []
      else if d = newline then None
      else map_option ((#) d) (lazy_tail r))"

fun match_group :: "string \<Rightarrow> string option" where
  "match_group [] = None"
| "match_group (c # r) =
     (if c = newline then None else map_option ((#) c) (lazy_tail r))"

text \<open>
  \<open>re_path_param.finditer(url)\<close>: the groups of the matches, from left to right and
  without overlap.  The search goes on right after the closing brace of a match, and one
  character further where no match starts.
\<close>

function finditer :: "string \<Rightarrow> string list" where
  "finditer [] = []"
| "finditer (c # s) =
     (if c = CHR ''{'' then
        (case match_group s of
           Some g \<Rightarrow> g # finditer (drop (Suc (length g)) s)
         | None \<Rightarrow> finditer s)
      else finditer s)"
  by pat_completeness auto
termination
  by (relation "measure length") auto

text \<open>\<open>match.group()\<close>, the whole text of a match whose group is \<open>g\<close>.\<close>

definition match_text :: "string \<Rightarrow> string" where
  "match_text g = ''{'' @ g @ ''}''"

definition is_param_path_variable :: "field_info \<Rightarrow> string \<Rightarrow> py_error + bool" where
  "is_param_path_variable param path_param_placeholder =
     (if name param = path_param_placeholder then Inr True
      else (case map_of (metadata param) ''PathVariable'' of
              None \<Rightarrow> Inr False
            | Some None \<Rightarrow> Inl AttributeError
            | Some (Some payload) \<Rightarrow>
                (case map_of (elements payload) ''value'' of
                   None \<Rightarrow> Inl KeyError
                 | Some v \<Rightarrow> Inr (string_value v = Some path_param_placeholder))))"

text \<open>
  The inner loop \<open>for param in other_params\<close> with its \<open>break\<close>: the parameter found
  (\<open>path_param_info\<close>) and the URL after the replacement.
\<close>

fun find_path_param ::
  "field_info list \<Rightarrow> string \<Rightarrow> string \<Rightarrow> py_error + (field_info option \<times> string)" where
  "find_path_param [] path_param_placeholder new_url = Inr (None, new_url)"
| "find_path_param (param # rest) path_param_placeholder new_url =
     (case is_param_path_variable param path_param_placeholder of
        Inl e \<Rightarrow> Inl e
      | Inr True \<Rightarrow>
          Inr (Some param,
               if name param \<noteq> path_param_placeholder
               then py_replace new_url (match_text path_param_placeholder)
                      (''{'' @ name param @ ''}'')
               else new_url)
      | Inr False \<Rightarrow> find_path_param rest path_param_placeholder new_url)"

text \<open>The message that \<open>extract_path_parameters\<close> passes to \<open>eprint\<close>.\<close>

definition not_found_message :: "string \<Rightarrow> string \<Rightarrow> string" where
  "not_found_message path_param_placeholder url =
     path_param_placeholder @ '' parameter from '' @ url @
     '' is not found among the operation's parameters''"

text \<open>
  The state of the outer loop: \<open>path_params\<close>, \<open>other_params\<close>, \<open>new_url\<close> and the
  messages written to the error stream so far.
\<close>

type_synonym reconcile_state = "field_info list \<times> field_info list \<times> string \<times> string list"

fun reconcile :: "string list \<Rightarrow> string \<Rightarrow> reconcile_state \<Rightarrow> py_error + reconcile_state" where
  "reconcile [] url st = Inr st"
| "reconcile (path_param_placeholder # phs) url (path_params, other_params, new_url, err) =
     (case find_path_param other_params path_param_placeholder new_url of
        Inl e \<Rightarrow> Inl e
      | Inr (None, new_url') \<Rightarrow>
          reconcile phs url
            (path_params, other_params, new_url',
             err @ [not_found_message path_param_placeholder url])
      | Inr (Some path_param_info, new_url') \<Rightarrow>
          reconcile phs url
            (path_params @ [path_param_info], remove1 path_param_info other_params,
             new_url', err))"

definition extract_path_parameters ::
  "field_info list \<Rightarrow> string \<Rightarrow> py_error + reconcile_state" where
  "extract_path_parameters params url = reconcile (finditer url) url ([], params, url, [])"

section \<open>PathObjectBuilder: the path object\<close>

text \<open>
  The values that a path object holds: \<open>None\<close>, booleans, integers, strings, lists and
  dictionaries (association lists in insertion order, read with \<open>map_of\<close>).
\<close>

datatype jval =
    JNone
  | JBool bool
  | JInt int
  | JStr string
  | JList "jval list"
  | JDict "(string \<times> jval) list"

type_synonym path_object = "(string \<times> jval) list"

text \<open>\<open>d[k] = v\<close> on a dictionary: a present key keeps its place, a new key goes last.\<close>

definition setitem :: "path_object \<Rightarrow> string \<Rightarrow> jval \<Rightarrow> path_object" where
  "setitem d k v = AList.update k v d"

text \<open>
  \<open>build_path\<close>.  The service name is a string; every other argument is any value, and
  is stored unless it is \<open>None\<close>.
\<close>

definition set_unless_none :: "string \<Rightarrow> jval \<Rightarrow> path_object \<Rightarrow> path_object" where
  "set_unless_none k v d = (if v \<noteq> JNone then setitem d k v else d)"

definition build_path ::
  "string \<Rightarrow> jval \<Rightarrow> jval \<Rightarrow> jval \<Rightarrow> jval \<Rightarrow> jval \<Rightarrow> jval \<Rightarrow> jval \<Rightarrow> jval \<Rightarrow> path_object" where
  "build_path service_name method path documentation parameters operation_id responses
     consumes produces =
     (let path_obj = [];
          path_obj = setitem path_obj ''tags'' (JList (map JStr (tags_from_service_name service_name)));
          path_obj = set_unless_none ''method'' method path_obj;
          path_obj = set_unless_none ''path'' path path_obj;
          path_obj = set_unless_none ''summary'' documentation path_obj;
          path_obj = set_unless_none ''parameters'' parameters path_obj;
          path_obj = set_unless_none ''responses'' responses path_obj;
          path_obj = set_unless_none ''consumes'' consumes path_obj;
          path_obj = set_unless_none ''produces'' produces path_obj;
          path_obj = set_unless_none ''operationId'' operation_id path_obj
      in path_obj)"

definition REQUEST_BODIES_PREFIX :: string where
  "REQUEST_BODIES_PREFIX = ''#/components/requestBodies/''"

text \<open>
  The test \<open>'$ref' in p and p['$ref'].startswith('#/components/requestBodies/')\<close> on an
  entry \<open>p\<close> of the parameter list.  On a dictionary it reads the key.  On a string
  \<open>in\<close> is the substring test and the subscript raises; on a list \<open>in\<close> is membership and
  the subscript raises; on \<open>None\<close>, a boolean or an integer \<open>in\<close> raises.
\<close>

definition is_request_body_ref :: "jval \<Rightarrow> py_error + bool" where
  "is_request_body_ref p =
     (case p of
        JDict d \<Rightarrow>
          (case map_of d ''$ref'' of
             None \<Rightarrow> Inr False
           | Some (JStr r) \<Rightarrow> Inr (prefix REQUEST_BODIES_PREFIX r)
           | Some _ \<Rightarrow> Inl AttributeError)
      | JStr s \<Rightarrow> (if sublist ''$ref'' s then Inl TypeError else Inr False)
      | JList l \<Rightarrow> (if JStr ''$ref'' \<in> set l then Inl TypeError else Inr False)
      | _ \<Rightarrow> Inl TypeError)"

text \<open>
  The loop \<open>for i in range(len(parameters))\<close> with its \<open>break\<close>, from index \<open>i\<close> on: the
  index found, or \<open>-1\<close>.
\<close>

fun find_ref_index :: "jval list \<Rightarrow> int \<Rightarrow> py_error + int" where
  "find_ref_index [] i = Inr (- 1)"
| "find_ref_index (p # ps) i =
     (case is_request_body_ref p of
        Inl e \<Rightarrow> Inl e
      | Inr True \<Rightarrow> Inr i
      | Inr False \<Rightarrow> find_ref_index ps (i + 1))"

text \<open>\<open>del parameters[index]\<close> for an index within the list.\<close>

definition delitem :: "'a list \<Rightarrow> int \<Rightarrow> 'a list" where
  "delitem xs i = take (nat i) xs @ drop (Suc (nat i)) xs"

text \<open>
  \<open>create_req_body_from_params_list\<close> changes its argument in place and returns nothing;
  the model returns the path object after the call.  The list under \<open>parameters\<close> is the
  very list that \<open>del\<close> shortens, so the entry of the path object is shortened too.
  Truth of a value is Python's: \<open>None\<close>, \<open>False\<close>, 0 and the empty string, list and
  dictionary are false.  A non-empty string has no character that contains \<open>$ref\<close>, a
  non-empty dictionary has no key 0, and a boolean or an integer has no length.
\<close>

definition create_req_body_from_params_list :: "path_object \<Rightarrow> py_error + path_object" where
  "create_req_body_from_params_list path_obj =
     (case map_of path_obj ''parameters'' of
        None \<Rightarrow> Inl KeyError
      | Some (JList parameters) \<Rightarrow>
          (if parameters \<noteq> [] then
             (case find_ref_index parameters 0 of
                Inl e \<Rightarrow> Inl e
              | Inr index \<Rightarrow>
                  (if index \<noteq> - 1 then
                     (case parameters ! nat index of
                        JDict d \<Rightarrow>
                          (case map_of d ''$ref'' of
                             Some r \<Rightarrow>
                               Inr (setitem
                                      (setitem path_obj ''requestBody'' (JDict [(''$ref'', r)]))
                                      ''parameters'' (JList (delitem parameters index)))
                           | None \<Rightarrow> Inl KeyError)
                      | _ \<Rightarrow> Inl TypeError)
                   else Inr path_obj))
           else Inr path_obj)
      | Some (JDict d) \<Rightarrow> (if d \<noteq> [] then Inl KeyError else Inr path_obj)
      | Some (JStr s) \<Rightarrow> Inr path_obj
      | Some (JBool b) \<Rightarrow> (if b then Inl TypeError else Inr path_obj)
      | Some (JInt n) \<Rightarrow> (if n \<noteq> 0 then Inl TypeError else Inr path_obj)
      | Some JNone \<Rightarrow> Inr path_obj)"

section \<open>ErrorStatusMapper\<close>

text \<open>
  \<open>int(code)\<close>.  A character is a code point below 256.  White space around the number
  is dropped: the tab, line feed, vertical tab, form feed, carriage return and space of
  ASCII, and beyond ASCII the next-line and no-break-space characters (codes 0x85 and
  0xA0); the separators 0x1C to 0x1F are no white space for \<open>int\<close>.  A sign may come
  first, then the decimal digits \<open>0\<close> to \<open>9\<close> (there is no other decimal digit below
  256), where single underscores may stand between digits.  Anything else raises
  \<open>ValueError\<close>.  The bound that recent interpreters put on the number of digits is left
  out.
\<close>

definition is_space :: "char \<Rightarrow> bool" where
  "is_space c = (c \<in> set [CHR '' '', CHR 0x09, CHR 0x0A, CHR 0x0B, CHR 0x0C, CHR 0x0D,
                            CHR 0x85, CHR 0xA0])"

definition strip :: "string \<Rightarrow> string" where
  "strip s = rev (dropWhile is_space (rev (dropWhile is_space s)))"

definition digit_value :: "char \<Rightarrow> int option" where
  "digit_value c = map_of (zip ''0123456789'' [0, 1, 2, 3, 4, 5, 6, 7, 8, 9]) c"

text \<open>
  The digits after the first one: \<open>acc\<close> is the value read so far, \<open>us\<close> says that the
  last character was an underscore.
\<close>

fun more_digits :: "int \<Rightarrow> bool \<Rightarrow> string \<Rightarrow> int option" where
  "more_digits acc us [] = (if us then None else Some acc)"
| "more_digits acc us (c # r) =
     (if c = CHR ''_'' then (if us then None else more_digits acc True r)
      else (case digit_value c of
              None \<Rightarrow> None
            | Some v \<Rightarrow> more_digits (acc * 10 + v) False r))"

definition unsigned_int :: "string \<Rightarrow> int option" where
  "unsigned_int s =
     (case s of
        [] \<Rightarrow> None
      | c # r \<Rightarrow> (case digit_value c of None \<Rightarrow> None | Some v \<Rightarrow> more_digits v False r))"

definition py_int :: "string \<Rightarrow> py_error + int" where
  "py_int s =
     (let t = strip s;
          r = (case t of
                 [] \<Rightarrow> None
               | c # u \<Rightarrow>
                   if c = CHR ''-'' then map_option uminus (unsigned_int u)
                   else if c = CHR ''+'' then unsigned_int u
                   else unsigned_int t)
      in case r of None \<Rightarrow> Inl ValueError | Some n \<Rightarrow> Inr n)"

text \<open>
  The part of the component service that the constructor reads:
  \<open>component_svc.get(id).info.packages[pkg].structures\<close>, a dictionary from the name of a
  structure to the structure, of which only the metadata matter.
\<close>

record structure_info =
  structure_metadata :: metadata_map

record package_info =
  structures :: "(string \<times> structure_info) list"

record component_info =
  packages :: "(string \<times> package_info) list"

record component_data =
  info :: component_info

type_synonym component_service = "(string \<times> component_data) list"

text \<open>The constants of \<open>http_client\<close> that the default table uses.\<close>

definition BAD_REQUEST :: int where "BAD_REQUEST = 400"
definition UNAUTHORIZED :: int where "UNAUTHORIZED = 401"
definition FORBIDDEN :: int where "FORBIDDEN = 403"
definition NOT_FOUND :: int where "NOT_FOUND = 404"
definition INTERNAL_SERVER_ERROR :: int where "INTERNAL_SERVER_ERROR = 500"
definition SERVICE_UNAVAILABLE :: int where "SERVICE_UNAVAILABLE = 503"
definition GATEWAY_TIMEOUT :: int where "GATEWAY_TIMEOUT = 504"

definition default_error_rest_map :: "(string \<times> int) list" where
  "default_error_rest_map =
     [(''com.vmware.vapi.std.errors.already_exists'', BAD_REQUEST),
      (''com.vmware.vapi.std.errors.already_in_desired_state'', BAD_REQUEST),
      (''com.vmware.vapi.std.errors.feature_in_use'', BAD_REQUEST),
      (''com.vmware.vapi.std.errors.internal_server_error'', INTERNAL_SERVER_ERROR),
      (''com.vmware.vapi.std.errors.invalid_argument'', BAD_REQUEST),
      (''com.vmware.vapi.std.errors.invalid_element_configuration'', BAD_REQUEST),
      (''com.vmware.vapi.std.errors.invalid_element_type'', BAD_REQUEST),
      (''com.vmware.vapi.std.errors.invalid_request'', BAD_REQUEST),
      (''com.vmware.vapi.std.errors.not_found'', NOT_FOUND),
      (''com.vmware.vapi.std.errors.operation_not_found'', NOT_FOUND),
      (''com.vmware.vapi.std.errors.not_allowed_in_current_state'', BAD_REQUEST),
      (''com.vmware.vapi.std.errors.resource_busy'', BAD_REQUEST),
      (''com.vmware.vapi.std.errors.resource_in_use'', BAD_REQUEST),
      (''com.vmware.vapi.std.errors.resource_inaccessible'', BAD_REQUEST),
      (''com.vmware.vapi.std.errors.service_unavailable'', SERVICE_UNAVAILABLE),
      (''com.vmware.vapi.std.errors.timed_out'', GATEWAY_TIMEOUT),
      (''com.vmware.vapi.std.errors.unable_to_allocate_resource'', BAD_REQUEST),
      (''com.vmware.vapi.std.errors.unauthenticated'', UNAUTHORIZED),
      (''com.vmware.vapi.std.errors.unauthorized'', FORBIDDEN),
      (''com.vmware.vapi.std.errors.unexpected_input'', BAD_REQUEST),
      (''com.vmware.vapi.std.errors.unsupported'', BAD_REQUEST),
      (''com.vmware.vapi.std.errors.error'', BAD_REQUEST),
      (''com.vmware.vapi.std.errors.concurrent_change'', BAD_REQUEST),
      (''com.vmware.vapi.std.errors.canceled'', BAD_REQUEST),
      (''com.vmware.vapi.std.errors.unverified_peer'', BAD_REQUEST)]"

record HttpErrorMap =
  component_svc :: component_service
  error_api_map :: "(string \<times> int) list"
  error_rest_map :: "(string \<times> int) list"

text \<open>
  The body of the \<open>try\<close> for one structure, before the assignment: the code read, \<open>None\<close>
  when the \<open>Response\<close> payload is \<open>None\<close>, or the exception raised.  \<open>int\<close> of \<open>None\<close>
  raises \<open>TypeError\<close>.
\<close>

definition response_code :: "structure_info \<Rightarrow> py_error + int option" where
  "response_code st =
     (case map_of (structure_metadata st) ''Response'' of
        None \<Rightarrow> Inl KeyError
      | Some None \<Rightarrow> Inr None
      | Some (Some payload) \<Rightarrow>
          (case map_of (elements payload) ''code'' of
             None \<Rightarrow> Inl KeyError
           | Some v \<Rightarrow>
               (case string_value v of
                  None \<Rightarrow> Inl TypeError
                | Some code \<Rightarrow>
                    (case py_int code of
                       Inl e \<Rightarrow> Inl e
                     | Inr n \<Rightarrow> Inr (Some n)))))"

definition no_code_message :: "string \<Rightarrow> string" where
  "no_code_message structure = structure @ '' :: is does not have an Error Code''"

text \<open>
  The loop over the structures: the dynamic map and the lines printed so far.  Only
  \<open>KeyError\<close> is caught by the \<open>except\<close> clause; any other exception leaves the loop.
\<close>

fun scan_structures ::
  "(string \<times> structure_info) list \<Rightarrow> (string \<times> int) list \<times> string list \<Rightarrow>
   py_error + ((string \<times> int) list \<times> string list)" where
  "scan_structures [] acc = Inr acc"
| "scan_structures ((structure, st) # rest) (api_map, out) =
     (case response_code st of
        Inl KeyError \<Rightarrow> scan_structures rest (api_map, out @ [no_code_message structure])
      | Inl e \<Rightarrow> Inl e
      | Inr None \<Rightarrow> scan_structures rest (api_map, out)
      | Inr (Some code) \<Rightarrow> scan_structures rest (AList.update structure code api_map, out))"

text \<open>
  The constructor: the object built and the lines printed, or the exception that leaves
  it.  The lookups before the loop are outside the \<open>try\<close>.
\<close>

definition HttpErrorMap_init :: "component_service \<Rightarrow> py_error + (HttpErrorMap \<times> string list)" where
  "HttpErrorMap_init svc =
     (case map_of svc ''com.vmware.vapi'' of
        None \<Rightarrow> Inl NotFound
      | Some component \<Rightarrow>
          (case map_of (packages (info component)) ''com.vmware.vapi.std.errors'' of
             None \<Rightarrow> Inl KeyError
           | Some package \<Rightarrow>
               (case scan_structures (structures package) ([], []) of
                  Inl e \<Rightarrow> Inl e
                | Inr (api_map, out) \<Rightarrow>
                    Inr (\<lparr>component_svc = svc, error_api_map = api_map,
                          error_rest_map = default_error_rest_map\<rparr>, out))))"

section \<open>Notions used to state the properties\<close>

text \<open>
  The path reconciliation in the words of the specification: the placeholders of the URL
  are taken from left to right; each goes to the first parameter not yet assigned whose
  name is the placeholder or whose \<open>PathVariable\<close> value is the placeholder; that
  parameter leaves the pool; the URL is rewritten when its name differs from the
  placeholder.  The result is the path group, the other group and the URL.
\<close>

definition spec_matches :: "field_info \<Rightarrow> string \<Rightarrow> bool" where
  "spec_matches p t =
     (name p = t \<or>
      (case map_of (metadata p) ''PathVariable'' of
         Some (Some payload) \<Rightarrow>
           (case map_of (elements payload) ''value'' of
              Some v \<Rightarrow> string_value v = Some t
            | None \<Rightarrow> False)
       | _ \<Rightarrow> False))"



text \<open>
  A parameter whose \<open>PathVariable\<close> payload, when it has one, is not \<open>None\<close> and has a
  \<open>value\<close> element: the shape that the metamodel gives to path variables.
\<close>

definition path_variable_shaped :: "field_info \<Rightarrow> bool" where
  "path_variable_shaped p =
     (case map_of (metadata p) ''PathVariable'' of
        None \<Rightarrow> True
      | Some None \<Rightarrow> False
      | Some (Some payload) \<Rightarrow> map_of (elements payload) ''value'' \<noteq> None)"

text \<open>
  A URL template as a sequence of literal text and placeholders.  In a well-formed
  template the text has no brace, and a placeholder is a non-empty token without braces
  and newlines.
\<close>

datatype segment = Text string | Placeholder string

fun render :: "segment list \<Rightarrow> string" where
  "render [] = []"
| "render (Text s # segs) = s @ render segs"
| "render (Placeholder t # segs) = ''{'' @ t @ ''}'' @ render segs"

definition brace_free :: "string \<Rightarrow> bool" where
  "brace_free s = (CHR ''{'' \<notin> set s \<and> CHR ''}'' \<notin> set s)"

definition wf_token :: "string \<Rightarrow> bool" where
  "wf_token t = (t \<noteq> [] \<and> brace_free t \<and> newline \<notin> set t)"

fun wf_segment :: "segment \<Rightarrow> bool" where
  "wf_segment (Text s) = brace_free s"
| "wf_segment (Placeholder t) = wf_token t"

text \<open>The placeholders of a template, and the renaming of a placeholder in it.\<close>

fun placeholders :: "segment list \<Rightarrow> string list" where
  "placeholders [] = []"
| "placeholders (Text s # segs) = placeholders segs"
| "placeholders (Placeholder t # segs) = t # placeholders segs"

fun rename :: "string \<Rightarrow> string \<Rightarrow> segment \<Rightarrow> segment" where
  "rename t n (Text s) = Text s"
| "rename t n (Placeholder u) = Placeholder (if u = t then n else u)"

text \<open>
  Parameters as the metamodel builds them: one without metadata, and one with a
  \<open>PathVariable\<close> annotation whose \<open>value\<close> element is \<open>v\<close>.
\<close>

definition plain_param :: "string \<Rightarrow> field_info" where
  "plain_param n = \<lparr>name = n, metadata = []\<rparr>"

definition path_variable_param :: "string \<Rightarrow> string \<Rightarrow> field_info" where
  "path_variable_param n v =
     \<lparr>name = n,
      metadata = [(''PathVariable'', Some \<lparr>elements = [(''value'', \<lparr>string_value = Some v\<rparr>)]\<rparr>)]\<rparr>"

section \<open>Properties of the string functions\<close>

lemmas lower_simps = lower_def lower_char_def ascii_uppercase_def ascii_lowercase_def

lemma py_find_ge: "- 1 \<le> py_find s sub"
  by (induction s) (auto simp: Let_def)

lemma py_find_sublist: "(py_find s sub > - 1) = sublist sub s"
proof (induction s)
  case Nil
  then show ?case by simp
next
  case (Cons c cs)
  show ?case
  proof (cases "prefix sub (c # cs)")
    case True
    then show ?thesis by (simp add: prefix_imp_sublist)
  next
    case False
    have "sublist sub (c # cs) = sublist sub cs"
      using False by (simp add: sublist_Cons_right)
    moreover have "(py_find (c # cs) sub > - 1) = (py_find cs sub > - 1)"
      using False py_find_ge [of cs sub] by (auto simp: Let_def)
    ultimately show ?thesis using Cons.IH by simp
  qed
qed

lemma py_find_length: "py_find s sub > - 1 \<Longrightarrow> length sub \<le> length s"
  using py_find_sublist [of s sub] by (auto simp: sublist_def)

lemma py_find_append: "py_find s sub > - 1 \<Longrightarrow> py_find (s @ t) sub = py_find s sub"
proof (induction s)
  case Nil
  then show ?case by (cases t) (auto split: if_splits)
next
  case (Cons c cs)
  show ?case
  proof (cases "prefix sub (c # cs)")
    case True
    then have "prefix sub ((c # cs) @ t)" by (rule prefix_prefix)
    with True show ?thesis by simp
  next
    case False
    from Cons.prems False have r: "py_find cs sub > - 1"
      by (auto simp: Let_def split: if_splits)
    then have len: "length sub \<le> length cs" by (rule py_find_length)
    have "\<not> prefix sub ((c # cs) @ t)"
    proof
      assume "prefix sub ((c # cs) @ t)"
      then have "prefix sub (c # cs) \<or> (\<exists>us. sub = (c # cs) @ us)"
        using prefix_append [of sub "c # cs" t] by blast
      with False len show False by auto
    qed
    with False r Cons.IH show ?thesis by (simp add: Let_def)
  qed
qed

lemma py_find_char_absent:
  "c \<notin> set s \<Longrightarrow> py_find (s @ c # t) [c] = int (length s)"
  by (induction s) (auto simp: Let_def)

section \<open>Query-string augmentation\<close>

lemma sublist_single: "sublist [c] s = (c \<in> set s)"
  by (induction s) (auto simp: sublist_Cons_right)

lemma add_query_param_no_query:
  "CHR ''?'' \<notin> set u \<Longrightarrow> add_query_param u p = u @ ''?'' @ p"
  using py_find_sublist [of u "''?''"]
  by (simp add: add_query_param_def sublist_single)

lemma add_query_param_query:
  assumes "CHR ''?'' \<notin> set a"
  shows "add_query_param (a @ ''?'' @ b) p =
           (if sublist p b then a @ ''?'' @ b else a @ ''?'' @ b @ ''&'' @ p)"
proof -
  have "py_find (a @ ''?'' @ b) ''?'' = int (length a)"
    using py_find_char_absent [OF assms, of b] by simp
  moreover have "slice_from (a @ ''?'' @ b) (int (length a) + 1) = b"
    by (simp add: slice_from_def nat_add_distrib)
  ultimately show ?thesis
    using py_find_sublist [of b p] by (simp add: add_query_param_def)
qed

lemma add_query_param_twice: "add_query_param (add_query_param u p) p = add_query_param u p"
proof (cases "CHR ''?'' \<in> set u")
  case False
  then have "add_query_param u p = u @ ''?'' @ p" by (rule add_query_param_no_query)
  moreover have "add_query_param (u @ ''?'' @ p) p = u @ ''?'' @ p"
    using add_query_param_query [OF False, of p p] by simp
  ultimately show ?thesis by simp
next
  case True
  then obtain a b where u: "u = a @ ''?'' @ b" and a: "CHR ''?'' \<notin> set a"
    using split_list_first [of "CHR ''?''" u] by auto
  show ?thesis
  proof (cases "sublist p b")
    case True
    then show ?thesis using add_query_param_query [OF a, of b p] u by simp
  next
    case False
    have "sublist p (b @ ''&'' @ p)"
      by (metis sublist_appendI append.assoc append_Nil2)
    then have "add_query_param (a @ ''?'' @ (b @ ''&'' @ p)) p = a @ ''?'' @ (b @ ''&'' @ p)"
      using add_query_param_query [OF a, of "b @ ''&'' @ p" p] by simp
    with False show ?thesis using add_query_param_query [OF a, of b p] u by simp
  qed
qed

text \<open>
  Claim C7.  \<open>add_query_param\<close> is idempotent: adding the same \<open>key=value\<close> string a
  second time changes nothing.  A URL without a question mark gets \<open>?\<close> and the
  parameter; a URL with one gets \<open>&\<close> and the parameter, unless the parameter already
  occurs in the text after the first question mark, in which case the URL is returned as
  it is.  \<open>add_query_param("/x?a=1", "b=2")\<close> is \<open>"/x?a=1&b=2"\<close>, and adding \<open>"b=2"\<close>
  again leaves it unchanged.
\<close>

theorem add_query_param_idempotent:
  "add_query_param (add_query_param u p) p = add_query_param u p \<and>
   (CHR ''?'' \<notin> set u \<longrightarrow> add_query_param u p = u @ ''?'' @ p) \<and>
   (CHR ''?'' \<notin> set a \<and> \<not> sublist p b \<longrightarrow>
      add_query_param (a @ ''?'' @ b) p = a @ ''?'' @ b @ ''&'' @ p) \<and>
   (CHR ''?'' \<notin> set a \<and> sublist p b \<longrightarrow>
      add_query_param (a @ ''?'' @ b) p = a @ ''?'' @ b) \<and>
   add_query_param ''/x?a=1'' ''b=2'' = ''/x?a=1&b=2'' \<and>
   add_query_param ''/x?a=1&b=2'' ''b=2'' = ''/x?a=1&b=2''"
proof -
  have "add_query_param ''/x?a=1'' ''b=2'' = ''/x?a=1&b=2''"
    by (simp add: add_query_param_def slice_from_def)
  moreover have "add_query_param ''/x?a=1&b=2'' ''b=2'' = ''/x?a=1&b=2''"
    by (simp add: add_query_param_def slice_from_def)
  ultimately show ?thesis
    using add_query_param_twice [of u p] add_query_param_no_query [of u p]
      add_query_param_query [of a b p]
    by simp
qed

theorem add_query_param_idempotent_witness:
  "add_query_param (add_query_param ''/x?a=1'' ''b=2'') ''b=2'' = add_query_param ''/x?a=1'' ''b=2'' \<and>
   CHR ''?'' \<notin> set ''/x'' \<and> add_query_param ''/x'' ''b=2'' = ''/x?b=2'' \<and>
   \<not> sublist ''b=2'' ''a=1'' \<and> add_query_param ''/x?a=1'' ''b=2'' = ''/x?a=1&b=2'' \<and>
   sublist ''b=2'' ''a=1&b=2'' \<and> add_query_param ''/x?a=1&b=2'' ''b=2'' = ''/x?a=1&b=2''"
proof -
  have n: "\<not> sublist ''b=2'' ''a=1''"
    using py_find_sublist [of "''a=1''" "''b=2''"] by simp
  have s: "sublist ''b=2'' ''a=1&b=2''"
    using py_find_sublist [of "''a=1&b=2''" "''b=2''"] by simp
  show ?thesis
    using n s add_query_param_idempotent [of "''/x?a=1''" "''b=2''" "''/x''" "''a=1''"]
      add_query_param_idempotent [of "''/x''" "''b=2''" "''/x''" "''a=1&b=2''"]
    by simp
qed

section \<open>TypeMapper\<close>

text \<open>
  Claim C5, as the code has it.  An input whose lower-case form is none of the ten
  translated names comes back in lower case, with no format; the input itself comes back
  only when it is already in lower case.  \<open>"LONG"\<close> gives \<open>("integer", "int64")\<close> and
  \<open>"custom_struct"\<close> gives \<open>("custom_struct", None)\<close>.
\<close>

theorem converter_fallback_lower:
  "(lower s \<notin> set translated_types \<longrightarrow>
      metamodel_to_swagger_type_converter s = (lower s, None)) \<and>
   metamodel_to_swagger_type_converter ''LONG'' = (''integer'', Some ''int64'') \<and>
   metamodel_to_swagger_type_converter ''custom_struct'' = (''custom_struct'', None)"
proof -
  have "metamodel_to_swagger_type_converter ''LONG'' = (''integer'', Some ''int64'')"
    by (simp add: metamodel_to_swagger_type_converter_def lower_simps)
  moreover have "metamodel_to_swagger_type_converter ''custom_struct'' = (''custom_struct'', None)"
    by (simp add: metamodel_to_swagger_type_converter_def lower_simps)
  moreover have "lower s \<notin> set translated_types \<longrightarrow>
      metamodel_to_swagger_type_converter s = (lower s, None)"
    by (simp add: metamodel_to_swagger_type_converter_def translated_types_def Let_def)
  ultimately show ?thesis by simp
qed

theorem converter_fallback_lower_witness:
  "lower ''VmInfo'' \<notin> set translated_types \<and>
   metamodel_to_swagger_type_converter ''VmInfo'' = (''vminfo'', None)"
proof -
  have l: "lower ''VmInfo'' = ''vminfo''" by (simp add: lower_simps)
  have h: "lower ''VmInfo'' \<notin> set translated_types"
    unfolding l by (simp add: translated_types_def)
  show ?thesis using h converter_fallback_lower [of "''VmInfo''"] l by simp
qed

text \<open>
  The claim as the specification states it fails: \<open>"Custom_Struct"\<close> matches none of the
  ten names, with or without regard to case, and does not come back unchanged.
\<close>

theorem converter_unchanged_counterexample:
  "''Custom_Struct'' \<notin> set translated_types \<and>
   lower ''Custom_Struct'' \<notin> set translated_types \<and>
   metamodel_to_swagger_type_converter ''Custom_Struct'' \<noteq> (''Custom_Struct'', None)"
  by (simp add: metamodel_to_swagger_type_converter_def translated_types_def lower_simps)

lemma lower_typeset: "m \<in> set typeset \<Longrightarrow> lower m = m"
  by (auto simp: typeset_def lower_simps)

text \<open>
  Claim C6, as the code has it.  \<open>is_type_builtin\<close> is true exactly for the strings that
  agree, up to the case of their letters, with a member of \<open>typeset\<close>, and \<open>typeset\<close>
  has twelve members.
\<close>

theorem is_type_builtin_twelve:
  "is_type_builtin t = (\<exists>m \<in> set typeset. lower t = lower m) \<and>
   distinct typeset \<and> length typeset = 12 \<and> card (set typeset) = 12"
proof -
  have d: "distinct typeset" by (simp add: typeset_def)
  have l: "length typeset = 12" by (simp add: typeset_def)
  have c: "card (set typeset) = 12" using d l distinct_card [of typeset] by simp
  have "is_type_builtin t = (\<exists>m \<in> set typeset. lower t = lower m)"
    using lower_typeset by (auto simp: is_type_builtin_def)
  with d l c show ?thesis by simp
qed

theorem is_type_builtin_twelve_witness:
  "is_type_builtin ''Boolean'' \<and> ''boolean'' \<in> set typeset \<and>
   lower ''Boolean'' = lower ''boolean'' \<and> \<not> is_type_builtin ''date_time''"
proof -
  have m: "''boolean'' \<in> set typeset" by (simp add: typeset_def)
  have e: "lower ''Boolean'' = lower ''boolean''" by (simp add: lower_simps)
  have n: "\<not> (\<exists>m \<in> set typeset. lower ''date_time'' = lower m)"
    by (simp add: typeset_def lower_simps)
  show ?thesis
    using m e n is_type_builtin_twelve [of "''Boolean''"] is_type_builtin_twelve [of "''date_time''"]
    by blast
qed

text \<open>
  The claim as the specification states it fails on the number: twelve names that differ
  pairwise, also up to case, are all built-in.
\<close>

theorem is_type_builtin_eleven_counterexample:
  "is_type_builtin ''binary'' \<and> is_type_builtin ''boolean'' \<and> is_type_builtin ''datetime'' \<and>
   is_type_builtin ''double'' \<and> is_type_builtin ''dynamicstructure'' \<and>
   is_type_builtin ''exception'' \<and> is_type_builtin ''id'' \<and> is_type_builtin ''long'' \<and>
   is_type_builtin ''opaque'' \<and> is_type_builtin ''secret'' \<and> is_type_builtin ''string'' \<and>
   is_type_builtin ''uri'' \<and>
   distinct (map lower [''binary'', ''boolean'', ''datetime'', ''double'', ''dynamicstructure'',
      ''exception'', ''id'', ''long'', ''opaque'', ''secret'', ''string'', ''uri'']) \<and>
   length [''binary'', ''boolean'', ''datetime'', ''double'', ''dynamicstructure'',
      ''exception'', ''id'', ''long'', ''opaque'', ''secret'', ''string'', ''uri''] = 12"
  by (simp add: is_type_builtin_def typeset_def lower_simps)

section \<open>Tags\<close>

lemma py_split_no_sep: "sep \<notin> set s \<Longrightarrow> py_split sep s = [s]"
  by (induction s) auto

lemma py_split_append_sep:
  "sep \<notin> set s \<Longrightarrow> py_split sep (s @ sep # r) = s # py_split sep r"
  by (induction s) auto

lemma py_split_join:
  "segs \<noteq> [] \<Longrightarrow> \<forall>s \<in> set segs. sep \<notin> set s \<Longrightarrow> py_split sep (py_join [sep] segs) = segs"
proof (induction "[sep]" segs rule: py_join.induct)
  case 1
  then show ?case by simp
next
  case (2 x)
  then show ?case by (simp add: py_split_no_sep)
next
  case (3 x y ys)
  then show ?case by (simp add: py_split_append_sep)
qed

lemma map_of_set_unless_none_other:
  "k' \<noteq> k \<Longrightarrow> map_of (set_unless_none k v d) k' = map_of d k'"
  by (simp add: set_unless_none_def setitem_def update_conv')

lemma map_of_set_unless_none_same:
  "map_of (set_unless_none k v d) k = (if v \<noteq> JNone then Some v else map_of d k)"
  by (simp add: set_unless_none_def setitem_def update_conv')

lemma build_path_tags:
  "map_of (build_path service_name method path documentation parameters operation_id
             responses consumes produces) ''tags'' =
     Some (JList (map JStr (tags_from_service_name service_name)))"
  by (simp add: build_path_def Let_def map_of_set_unless_none_other setitem_def)

text \<open>
  Claim C8.  The path object that \<open>build_path\<close> returns always has the key \<open>tags\<close>, with
  the tags of the service name.  For a service name made of segments joined by dots, the
  tag is the segments from index 3 on joined by \<open>/\<close>; with fewer than four segments it is
  the empty string.  \<open>"com.vmware.vcenter.VM"\<close> gives \<open>["VM"]\<close> and \<open>"com.vmware.a.b.c"\<close>
  gives \<open>["b/c"]\<close>.
\<close>

theorem tags_from_segments:
  "map_of (build_path service_name method path documentation parameters operation_id
             responses consumes produces) ''tags'' =
     Some (JList (map JStr (tags_from_service_name service_name))) \<and>
   (segs \<noteq> [] \<and> (\<forall>s \<in> set segs. CHR ''.'' \<notin> set s) \<longrightarrow>
      tags_from_service_name (py_join ''.'' segs) = [py_join ''/'' (drop 3 segs)]) \<and>
   (length (py_split (CHR ''.'') service_name) < 4 \<longrightarrow>
      tags_from_service_name service_name = ['''']) \<and>
   tags_from_service_name ''com.vmware.vcenter.VM'' = [''VM''] \<and>
   tags_from_service_name ''com.vmware.a.b.c'' = [''b/c'']"
proof -
  have "segs \<noteq> [] \<and> (\<forall>s \<in> set segs. CHR ''.'' \<notin> set s) \<longrightarrow>
      tags_from_service_name (py_join ''.'' segs) = [py_join ''/'' (drop 3 segs)]"
    using py_split_join [of segs "CHR ''.''"]
    by (simp add: tags_from_service_name_def TAG_SEPARATOR_def)
  moreover have "length (py_split (CHR ''.'') service_name) < 4 \<longrightarrow>
      tags_from_service_name service_name = ['''']"
    by (simp add: tags_from_service_name_def)
  moreover have "tags_from_service_name ''com.vmware.vcenter.VM'' = [''VM'']"
    by (simp add: tags_from_service_name_def TAG_SEPARATOR_def)
  moreover have "tags_from_service_name ''com.vmware.a.b.c'' = [''b/c'']"
    by (simp add: tags_from_service_name_def TAG_SEPARATOR_def)
  ultimately show ?thesis using build_path_tags by simp
qed

theorem tags_from_segments_witness:
  "[''com'', ''vmware'', ''a'', ''b'', ''c''] \<noteq> [] \<and>
   list_all (\<lambda>s. CHR ''.'' \<notin> set s) [''com'', ''vmware'', ''a'', ''b'', ''c''] \<and>
   tags_from_service_name (py_join ''.'' [''com'', ''vmware'', ''a'', ''b'', ''c'']) = [''b/c''] \<and>
   length (py_split (CHR ''.'') ''com.vmware'') < 4 \<and>
   tags_from_service_name ''com.vmware'' = [''''] \<and>
   map_of (build_path ''com.vmware'' JNone JNone JNone JNone JNone JNone JNone JNone) ''tags'' =
     Some (JList [JStr ''''])"
proof -
  have h: "\<forall>s \<in> set [''com'', ''vmware'', ''a'', ''b'', ''c'']. CHR ''.'' \<notin> set s" by simp
  have l: "length (py_split (CHR ''.'') ''com.vmware'') < 4" by simp
  show ?thesis
    using h l
      tags_from_segments [of "''com.vmware''" JNone JNone JNone JNone JNone JNone JNone JNone
        "[''com'', ''vmware'', ''a'', ''b'', ''c'']"]
    by simp
qed

section \<open>Request-body extraction\<close>

lemma find_ref_index_first:
  "\<forall>p \<in> set pre. is_request_body_ref p = Inr False \<Longrightarrow>
   is_request_body_ref q = Inr True \<Longrightarrow>
   find_ref_index (pre @ q # post) i = Inr (i + int (length pre))"
  by (induction pre arbitrary: i) auto

lemma build_path_no_parameters:
  "map_of (build_path service_name method path documentation JNone operation_id
             responses consumes produces) ''parameters'' = None"
  by (simp add: build_path_def Let_def map_of_set_unless_none_other
        map_of_set_unless_none_same setitem_def)

lemma create_req_body_hoists_first:
  assumes params: "map_of path_obj ''parameters'' = Some (JList (pre @ JDict d # post))"
    and pre: "\<forall>p \<in> set pre. is_request_body_ref p = Inr False"
    and ref: "map_of d ''$ref'' = Some (JStr r)"
    and pref: "prefix REQUEST_BODIES_PREFIX r"
  shows "create_req_body_from_params_list path_obj =
           Inr (setitem (setitem path_obj ''requestBody'' (JDict [(''$ref'', JStr r)]))
                  ''parameters'' (JList (pre @ post)))"
proof -
  have q: "is_request_body_ref (JDict d) = Inr True"
    using ref pref by (simp add: is_request_body_ref_def)
  have idx: "find_ref_index (pre @ JDict d # post) 0 = Inr (int (length pre))"
    using find_ref_index_first [OF pre q, of post 0] by simp
  have del: "delitem (pre @ JDict d # post) (int (length pre)) = pre @ post"
    by (simp add: delitem_def)
  show ?thesis
    using params idx del ref
    by (simp add: create_req_body_from_params_list_def)
qed

lemma is_request_body_ref_other:
  "p = JDict e \<and>
   (map_of e ''$ref'' = None \<or>
    (\<exists>s. map_of e ''$ref'' = Some (JStr s) \<and> \<not> prefix ''#/components/requestBodies/'' s)) \<Longrightarrow>
   is_request_body_ref p = Inr False"
  by (auto simp: is_request_body_ref_def REQUEST_BODIES_PREFIX_def)

lemma find_ref_index_none:
  "\<forall>p \<in> set ps. is_request_body_ref p = Inr False \<Longrightarrow> find_ref_index ps i = Inr (- 1)"
  by (induction ps arbitrary: i) auto

lemma create_req_body_no_ref:
  assumes "map_of path_obj ''parameters'' = Some (JList ps)"
    and "\<forall>p \<in> set ps. is_request_body_ref p = Inr False"
  shows "create_req_body_from_params_list path_obj = Inr path_obj"
  using assms find_ref_index_none [of ps 0]
  by (simp add: create_req_body_from_params_list_def)

lemma map_of_setitem: "map_of (setitem d k v) k' = (if k' = k then Some v else map_of d k')"
  by (simp add: setitem_def update_conv')

text \<open>
  Claim C10.  \<open>create_req_body_from_params_list\<close> reads the key \<open>parameters\<close> without a
  test: on a path object without that key it raises \<open>KeyError\<close>, and \<open>build_path\<close> called
  with \<open>parameters\<close> absent builds such an object.  When the key holds a list of
  dictionaries, only an entry whose \<open>$ref\<close> is a string that starts with
  \<open>#/components/requestBodies/\<close> counts: the first such entry is taken out of the list and
  becomes the \<open>requestBody\<close> of the path object, the entries before and after it stay
  (also a later entry of that kind), and every other key keeps its value; when no entry is
  of that kind, the path object stays as it is.
\<close>

theorem create_req_body_key_error:
  "(map_of path_obj ''parameters'' = None \<longrightarrow>
      create_req_body_from_params_list path_obj = Inl KeyError) \<and>
   create_req_body_from_params_list
     (build_path service_name method path documentation JNone operation_id
        responses consumes produces) = Inl KeyError \<and>
   (map_of path_obj ''parameters'' = Some (JList (pre @ JDict d # post)) \<and>
    (\<forall>p \<in> set pre. \<exists>e. p = JDict e \<and>
       (map_of e ''$ref'' = None \<or>
        (\<exists>s. map_of e ''$ref'' = Some (JStr s) \<and>
             \<not> prefix ''#/components/requestBodies/'' s))) \<and>
    map_of d ''$ref'' = Some (JStr r) \<and> prefix ''#/components/requestBodies/'' r \<longrightarrow>
      (\<exists>result.
         create_req_body_from_params_list path_obj = Inr result \<and>
         result = setitem (setitem path_obj ''requestBody'' (JDict [(''$ref'', JStr r)]))
                    ''parameters'' (JList (pre @ post)) \<and>
         map_of result ''requestBody'' = Some (JDict [(''$ref'', JStr r)]) \<and>
         map_of result ''parameters'' = Some (JList (pre @ post)) \<and>
         (\<forall>k. k \<noteq> ''requestBody'' \<and> k \<noteq> ''parameters'' \<longrightarrow>
              map_of result k = map_of path_obj k))) \<and>
   (map_of path_obj ''parameters'' = Some (JList ps) \<and>
    (\<forall>p \<in> set ps. \<exists>e. p = JDict e \<and>
       (map_of e ''$ref'' = None \<or>
        (\<exists>s. map_of e ''$ref'' = Some (JStr s) \<and>
             \<not> prefix ''#/components/requestBodies/'' s))) \<longrightarrow>
      create_req_body_from_params_list path_obj = Inr path_obj)"
proof (intro conjI impI)
  assume "map_of path_obj ''parameters'' = None"
  then show "create_req_body_from_params_list path_obj = Inl KeyError"
    by (simp add: create_req_body_from_params_list_def)
next
  show "create_req_body_from_params_list
     (build_path service_name method path documentation JNone operation_id
        responses consumes produces) = Inl KeyError"
    using build_path_no_parameters by (simp add: create_req_body_from_params_list_def)
next
  assume h: "map_of path_obj ''parameters'' = Some (JList (pre @ JDict d # post)) \<and>
    (\<forall>p \<in> set pre. \<exists>e. p = JDict e \<and>
       (map_of e ''$ref'' = None \<or>
        (\<exists>s. map_of e ''$ref'' = Some (JStr s) \<and>
             \<not> prefix ''#/components/requestBodies/'' s))) \<and>
    map_of d ''$ref'' = Some (JStr r) \<and> prefix ''#/components/requestBodies/'' r"
  then have pre: "\<forall>p \<in> set pre. is_request_body_ref p = Inr False"
    using is_request_body_ref_other by blast
  have pref: "prefix REQUEST_BODIES_PREFIX r" using h by (simp add: REQUEST_BODIES_PREFIX_def)
  let ?result = "setitem (setitem path_obj ''requestBody'' (JDict [(''$ref'', JStr r)]))
                    ''parameters'' (JList (pre @ post))"
  have "create_req_body_from_params_list path_obj = Inr ?result"
    using h pre pref create_req_body_hoists_first [of path_obj pre d post r] by blast
  moreover have "map_of ?result ''requestBody'' = Some (JDict [(''$ref'', JStr r)])"
    by (simp add: map_of_setitem)
  moreover have "map_of ?result ''parameters'' = Some (JList (pre @ post))"
    by (simp add: map_of_setitem)
  moreover have "\<forall>k. k \<noteq> ''requestBody'' \<and> k \<noteq> ''parameters'' \<longrightarrow>
      map_of ?result k = map_of path_obj k"
    by (simp add: map_of_setitem)
  ultimately show "\<exists>result.
         create_req_body_from_params_list path_obj = Inr result \<and>
         result = setitem (setitem path_obj ''requestBody'' (JDict [(''$ref'', JStr r)]))
                    ''parameters'' (JList (pre @ post)) \<and>
         map_of result ''requestBody'' = Some (JDict [(''$ref'', JStr r)]) \<and>
         map_of result ''parameters'' = Some (JList (pre @ post)) \<and>
         (\<forall>k. k \<noteq> ''requestBody'' \<and> k \<noteq> ''parameters'' \<longrightarrow>
              map_of result k = map_of path_obj k)"
    by blast
next
  assume h: "map_of path_obj ''parameters'' = Some (JList ps) \<and>
    (\<forall>p \<in> set ps. \<exists>e. p = JDict e \<and>
       (map_of e ''$ref'' = None \<or>
        (\<exists>s. map_of e ''$ref'' = Some (JStr s) \<and>
             \<not> prefix ''#/components/requestBodies/'' s)))"
  then have "\<forall>p \<in> set ps. is_request_body_ref p = Inr False"
    using is_request_body_ref_other by blast
  with h show "create_req_body_from_params_list path_obj = Inr path_obj"
    using create_req_body_no_ref by blast
qed

theorem create_req_body_key_error_witness:
  "map_of [(''tags'', JList [JStr ''VM''])] ''parameters'' = None \<and>
   create_req_body_from_params_list [(''tags'', JList [JStr ''VM''])] = Inl KeyError \<and>
   create_req_body_from_params_list
     (build_path ''com.vmware.vcenter.VM'' (JStr ''post'') (JStr ''/vm'') JNone JNone JNone
        JNone JNone JNone) = Inl KeyError \<and>
   \<not> prefix ''#/components/requestBodies/'' ''#/components/parameters/P'' \<and>
   prefix ''#/components/requestBodies/'' ''#/components/requestBodies/A'' \<and>
   create_req_body_from_params_list
     [(''path'', JStr ''/vm''),
      (''parameters'',
       JList [JDict [(''$ref'', JStr ''#/components/parameters/P'')],
              JDict [(''name'', JStr ''x'')],
              JDict [(''$ref'', JStr ''#/components/requestBodies/A'')],
              JDict [(''$ref'', JStr ''#/components/requestBodies/B'')]])] =
     Inr [(''path'', JStr ''/vm''),
          (''parameters'',
           JList [JDict [(''$ref'', JStr ''#/components/parameters/P'')],
                  JDict [(''name'', JStr ''x'')],
                  JDict [(''$ref'', JStr ''#/components/requestBodies/B'')]]),
          (''requestBody'', JDict [(''$ref'', JStr ''#/components/requestBodies/A'')])] \<and>
   create_req_body_from_params_list
     [(''parameters'',
       JList [JDict [(''$ref'', JStr ''#/components/parameters/P'')],
              JDict [(''name'', JStr ''x'')]])] =
     Inr [(''parameters'',
           JList [JDict [(''$ref'', JStr ''#/components/parameters/P'')],
                  JDict [(''name'', JStr ''x'')]])]"
proof -
  let ?P = "JDict [(''$ref'', JStr ''#/components/parameters/P'')]"
  let ?x = "JDict [(''name'', JStr ''x'')]"
  let ?A = "[(''$ref'', JStr ''#/components/requestBodies/A'')]"
  let ?B = "JDict [(''$ref'', JStr ''#/components/requestBodies/B'')]"
  let ?po = "[(''path'', JStr ''/vm''), (''parameters'', JList ([?P, ?x] @ JDict ?A # [?B]))]"
  let ?qo = "[(''parameters'', JList [?P, ?x])]"
  let ?t = "[(''tags'', JList [JStr ''VM''])]"
  note hoist = create_req_body_key_error [where path_obj = ?po and pre = "[?P, ?x]"
      and d = ?A and post = "[?B]" and r = "''#/components/requestBodies/A''"]
  note keep = create_req_body_key_error [where path_obj = ?qo and ps = "[?P, ?x]"]
  note none = create_req_body_key_error [where path_obj = ?t]
  have np: "\<not> prefix ''#/components/requestBodies/'' ''#/components/parameters/P''" by simp
  have pa: "prefix ''#/components/requestBodies/'' ''#/components/requestBodies/A''" by simp
  have a: "map_of ?t ''parameters'' = None" by simp
  have 1: "create_req_body_from_params_list ?t = Inl KeyError"
    by (rule mp [OF none [THEN conjunct1]]) simp
  have 2: "create_req_body_from_params_list
     (build_path ''com.vmware.vcenter.VM'' (JStr ''post'') (JStr ''/vm'') JNone JNone JNone
        JNone JNone JNone) = Inl KeyError"
    by (rule create_req_body_key_error [THEN conjunct2, THEN conjunct1])
  have "\<exists>result.
         create_req_body_from_params_list ?po = Inr result \<and>
         result = setitem (setitem ?po ''requestBody''
                    (JDict [(''$ref'', JStr ''#/components/requestBodies/A'')]))
                    ''parameters'' (JList ([?P, ?x] @ [?B])) \<and>
         map_of result ''requestBody'' =
           Some (JDict [(''$ref'', JStr ''#/components/requestBodies/A'')]) \<and>
         map_of result ''parameters'' = Some (JList ([?P, ?x] @ [?B])) \<and>
         (\<forall>k. k \<noteq> ''requestBody'' \<and> k \<noteq> ''parameters'' \<longrightarrow>
              map_of result k = map_of ?po k)"
    by (rule mp [OF hoist [THEN conjunct2, THEN conjunct2, THEN conjunct1]]) simp
  then have 3: "create_req_body_from_params_list ?po =
      Inr (setitem (setitem ?po ''requestBody''
             (JDict [(''$ref'', JStr ''#/components/requestBodies/A'')]))
             ''parameters'' (JList ([?P, ?x] @ [?B])))"
    by blast
  have 4: "create_req_body_from_params_list ?qo = Inr ?qo"
    by (rule mp [OF keep [THEN conjunct2, THEN conjunct2, THEN conjunct2]]) simp
  show ?thesis using np pa a 1 2 3 4 by (simp add: setitem_def)
qed

section \<open>ErrorStatusMapper\<close>

text \<open>
  \<open>int\<close> on some texts: white space and a sign around digits, underscores between
  digits, the no-break space beyond ASCII; the separator 0x1C, a doubled or trailing
  underscore, a space inside and letters are refused.
\<close>

lemma py_int_examples:
  "py_int ''404'' = Inr 404 \<and>
   py_int '' -4_04 '' = Inr (- 404) \<and>
   py_int ''+007'' = Inr 7 \<and>
   py_int [CHR 0xA0, CHR ''4'', CHR ''2'', CHR 0x0A] = Inr 42 \<and>
   py_int [CHR 0x1C, CHR ''5''] = Inl ValueError \<and>
   py_int ''4__04'' = Inl ValueError \<and>
   py_int ''404_'' = Inl ValueError \<and>
   py_int ''4 04'' = Inl ValueError \<and>
   py_int ''- 4'' = Inl ValueError \<and>
   py_int '''' = Inl ValueError \<and>
   py_int ''abc'' = Inl ValueError"
  by (simp add: py_int_def strip_def is_space_def unsigned_int_def digit_value_def)

text \<open>A structure that the loop passes without leaving it: it raises nothing or \<open>KeyError\<close>.\<close>

lemma scan_structures_passes:
  "\<forall>x \<in> set pre. response_code (snd x) = Inl KeyError \<or> (\<exists>c. response_code (snd x) = Inr c) \<Longrightarrow>
   \<exists>acc'. scan_structures (pre @ rest) acc = scan_structures rest acc'"
proof (induction pre arbitrary: acc)
  case Nil
  show ?case by (rule exI [of _ acc]) simp
next
  case (Cons x pre)
  obtain sname st where x: "x = (sname, st)" by (cases x)
  obtain api_map out where acc: "acc = (api_map, out)" by (cases acc)
  from Cons.prems have tl: "\<forall>x \<in> set pre. response_code (snd x) = Inl KeyError \<or>
      (\<exists>c. response_code (snd x) = Inr c)" by simp
  from Cons.prems x have "response_code st = Inl KeyError \<or> (\<exists>c. response_code st = Inr c)"
    by simp
  then show ?case
  proof (elim disjE exE)
    assume "response_code st = Inl KeyError"
    then show ?thesis using Cons.IH [OF tl] x acc by simp
  next
    fix c assume "response_code st = Inr c"
    then show ?thesis using Cons.IH [OF tl] x acc by (cases c) simp_all
  qed
qed

lemma response_code_malformed:
  "map_of (structure_metadata st) ''Response'' = Some (Some payload) \<Longrightarrow>
   map_of (elements payload) ''code'' = Some v \<Longrightarrow>
   string_value v = Some code \<Longrightarrow> py_int code = Inl ValueError \<Longrightarrow>
   response_code st = Inl ValueError"
  by (simp add: response_code_def)

lemma scan_structures_malformed:
  assumes "\<forall>x \<in> set pre. response_code (snd x) = Inl KeyError \<or> (\<exists>c. response_code (snd x) = Inr c)"
    and "response_code st = Inl ValueError"
  shows "scan_structures (pre @ (structure, st) # post) acc = Inl ValueError"
proof -
  obtain acc' where "scan_structures (pre @ (structure, st) # post) acc =
      scan_structures ((structure, st) # post) acc'"
    using scan_structures_passes [OF assms(1)] by blast
  moreover have "scan_structures ((structure, st) # post) acc' = Inl ValueError"
    using assms(2) by (cases acc') simp
  ultimately show ?thesis by simp
qed

lemma py_int_error: "py_int s = Inl e \<Longrightarrow> e = ValueError"
  by (auto simp: py_int_def Let_def split: option.splits)

lemma response_code_key_error:
  "(response_code st = Inl KeyError) =
     (map_of (structure_metadata st) ''Response'' = None \<or>
      (\<exists>payload. map_of (structure_metadata st) ''Response'' = Some (Some payload) \<and>
                 map_of (elements payload) ''code'' = None))"
  by (auto simp: response_code_def split: option.splits sum.splits dest: py_int_error)

lemma scan_structures_caught:
  "response_code st = Inl KeyError \<Longrightarrow>
   scan_structures ((structure, st) # rest) (api_map, out) =
     scan_structures rest (api_map, out @ [no_code_message structure])"
  by simp

lemma scan_structures_all_caught:
  "\<forall>x \<in> set ss. response_code (snd x) = Inl KeyError \<Longrightarrow>
   scan_structures ss (api_map, out) = Inr (api_map, out @ map (no_code_message \<circ> fst) ss)"
proof (induction ss arbitrary: out)
  case Nil
  then show ?case by simp
next
  case (Cons x ss)
  obtain sname st where x: "x = (sname, st)" by (cases x)
  with Cons show ?case by simp
qed

text \<open>
  Claim C4, as the code has it.  The \<open>except\<close> clause catches \<open>KeyError\<close> only, and the
  body of the \<open>try\<close> raises it exactly when the \<open>Response\<close> annotation is missing or
  has no \<open>code\<close> element.  Such a structure is reported and skipped, the dynamic map
  stays as it is and the loop goes on; when every structure is of this kind the
  constructor returns with an empty dynamic map.  A structure whose \<open>code\<close> is text that
  \<open>int\<close> refuses raises \<open>ValueError\<close>, which is not caught: when the structures before
  it raise nothing but \<open>KeyError\<close>, the exception leaves the constructor and no map is
  built.
\<close>

theorem malformed_code_propagates:
  "((response_code st = Inl KeyError) =
      (map_of (structure_metadata st) ''Response'' = None \<or>
       (\<exists>payload. map_of (structure_metadata st) ''Response'' = Some (Some payload) \<and>
                  map_of (elements payload) ''code'' = None))) \<and>
   (map_of (structure_metadata st) ''Response'' = None \<or>
    (map_of (structure_metadata st) ''Response'' = Some (Some empty_payload) \<and>
     map_of (elements empty_payload) ''code'' = None) \<longrightarrow>
      scan_structures ((sname, st) # rest) (api_map, out) =
        scan_structures rest (api_map, out @ [no_code_message sname])) \<and>
   (map_of quiet_svc ''com.vmware.vapi'' = Some quiet_component \<and>
    map_of (packages (info quiet_component)) ''com.vmware.vapi.std.errors'' = Some quiet_package \<and>
    (\<forall>x \<in> set (structures quiet_package). response_code (snd x) = Inl KeyError) \<longrightarrow>
      HttpErrorMap_init quiet_svc =
        Inr (\<lparr>component_svc = quiet_svc, error_api_map = [],
              error_rest_map = default_error_rest_map\<rparr>,
             map (no_code_message \<circ> fst) (structures quiet_package))) \<and>
   (map_of svc ''com.vmware.vapi'' = Some component \<and>
    map_of (packages (info component)) ''com.vmware.vapi.std.errors'' = Some package \<and>
    structures package = pre @ (bad, st') # post \<and>
    (\<forall>x \<in> set pre. response_code (snd x) = Inl KeyError \<or> (\<exists>c. response_code (snd x) = Inr c)) \<and>
    map_of (structure_metadata st') ''Response'' = Some (Some payload) \<and>
    map_of (elements payload) ''code'' = Some v \<and>
    string_value v = Some code \<and> py_int code = Inl ValueError \<longrightarrow>
      HttpErrorMap_init svc = Inl ValueError)"
proof (intro conjI impI)
  show "(response_code st = Inl KeyError) =
      (map_of (structure_metadata st) ''Response'' = None \<or>
       (\<exists>payload. map_of (structure_metadata st) ''Response'' = Some (Some payload) \<and>
                  map_of (elements payload) ''code'' = None))"
    by (rule response_code_key_error)
next
  assume "map_of (structure_metadata st) ''Response'' = None \<or>
    (map_of (structure_metadata st) ''Response'' = Some (Some empty_payload) \<and>
     map_of (elements empty_payload) ''code'' = None)"
  then have "response_code st = Inl KeyError"
    unfolding response_code_key_error by blast
  then show "scan_structures ((sname, st) # rest) (api_map, out) =
        scan_structures rest (api_map, out @ [no_code_message sname])"
    by (rule scan_structures_caught)
next
  assume h: "map_of quiet_svc ''com.vmware.vapi'' = Some quiet_component \<and>
    map_of (packages (info quiet_component)) ''com.vmware.vapi.std.errors'' = Some quiet_package \<and>
    (\<forall>x \<in> set (structures quiet_package). response_code (snd x) = Inl KeyError)"
  then have "scan_structures (structures quiet_package) ([], []) =
      Inr ([], [] @ map (no_code_message \<circ> fst) (structures quiet_package))"
    using scan_structures_all_caught [of "structures quiet_package" "[]" "[]"] by blast
  with h show "HttpErrorMap_init quiet_svc =
        Inr (\<lparr>component_svc = quiet_svc, error_api_map = [],
              error_rest_map = default_error_rest_map\<rparr>,
             map (no_code_message \<circ> fst) (structures quiet_package))"
    by (simp add: HttpErrorMap_init_def)
next
  assume h: "map_of svc ''com.vmware.vapi'' = Some component \<and>
    map_of (packages (info component)) ''com.vmware.vapi.std.errors'' = Some package \<and>
    structures package = pre @ (bad, st') # post \<and>
    (\<forall>x \<in> set pre. response_code (snd x) = Inl KeyError \<or> (\<exists>c. response_code (snd x) = Inr c)) \<and>
    map_of (structure_metadata st') ''Response'' = Some (Some payload) \<and>
    map_of (elements payload) ''code'' = Some v \<and>
    string_value v = Some code \<and> py_int code = Inl ValueError"
  then have s: "map_of svc ''com.vmware.vapi'' = Some component"
    and p: "map_of (packages (info component)) ''com.vmware.vapi.std.errors'' = Some package"
    and l: "structures package = pre @ (bad, st') # post"
    and pre: "\<forall>x \<in> set pre. response_code (snd x) = Inl KeyError \<or>
                (\<exists>c. response_code (snd x) = Inr c)"
    and m: "map_of (structure_metadata st') ''Response'' = Some (Some payload)"
      "map_of (elements payload) ''code'' = Some v" "string_value v = Some code"
      "py_int code = Inl ValueError"
    by simp_all
  have "response_code st' = Inl ValueError" using m by (rule response_code_malformed)
  then have "scan_structures (structures package) ([], []) = Inl ValueError"
    using scan_structures_malformed [OF pre] l by simp
  then show "HttpErrorMap_init svc = Inl ValueError"
    using s p by (simp add: HttpErrorMap_init_def)
qed

text \<open>
  The claim as the specification states it fails: with one structure whose code is the
  text \<open>abc\<close> the constructor raises \<open>ValueError\<close>, while with one structure that has no
  annotation it returns an object with an empty dynamic map and one printed line.
\<close>

theorem malformed_code_counterexample:
  "HttpErrorMap_init
     [(''com.vmware.vapi'',
       \<lparr>info = \<lparr>packages =
          [(''com.vmware.vapi.std.errors'',
            \<lparr>structures =
               [(''com.vmware.vapi.std.errors.custom'',
                 \<lparr>structure_metadata =
                    [(''Response'',
                      Some \<lparr>elements = [(''code'', \<lparr>string_value = Some ''abc''\<rparr>)]\<rparr>)]\<rparr>)]\<rparr>)]\<rparr>\<rparr>)]
     = Inl ValueError \<and>
   map_option (error_api_map \<circ> fst) (case HttpErrorMap_init
     [(''com.vmware.vapi'',
       \<lparr>info = \<lparr>packages =
          [(''com.vmware.vapi.std.errors'',
            \<lparr>structures =
               [(''com.vmware.vapi.std.errors.custom'',
                 \<lparr>structure_metadata = []\<rparr>)]\<rparr>)]\<rparr>\<rparr>)] of Inl e \<Rightarrow> None | Inr r \<Rightarrow> Some r)
     = Some []"
  by (simp add: HttpErrorMap_init_def response_code_def py_int_def strip_def is_space_def
      unsigned_int_def digit_value_def)

theorem malformed_code_propagates_witness:
  "py_int ''abc'' = Inl ValueError \<and>
   HttpErrorMap_init
     [(''com.vmware.vapi'',
       \<lparr>info = \<lparr>packages =
          [(''com.vmware.vapi.std.errors'',
            \<lparr>structures =
               [(''com.vmware.vapi.std.errors.first'', \<lparr>structure_metadata = []\<rparr>),
                (''com.vmware.vapi.std.errors.second'',
                 \<lparr>structure_metadata = [(''Response'', Some \<lparr>elements = []\<rparr>)]\<rparr>),
                (''com.vmware.vapi.std.errors.custom'',
                 \<lparr>structure_metadata =
                    [(''Response'',
                      Some \<lparr>elements = [(''code'', \<lparr>string_value = Some ''abc''\<rparr>)]\<rparr>)]\<rparr>)]\<rparr>)]\<rparr>\<rparr>)]
     = Inl ValueError \<and>
   HttpErrorMap_init
     [(''com.vmware.vapi'',
       \<lparr>info = \<lparr>packages =
          [(''com.vmware.vapi.std.errors'',
            \<lparr>structures =
               [(''com.vmware.vapi.std.errors.first'', \<lparr>structure_metadata = []\<rparr>),
                (''com.vmware.vapi.std.errors.second'',
                 \<lparr>structure_metadata = [(''Response'', Some \<lparr>elements = []\<rparr>)]\<rparr>)]\<rparr>)]\<rparr>\<rparr>)]
     = Inr (\<lparr>component_svc =
              [(''com.vmware.vapi'',
                \<lparr>info = \<lparr>packages =
                   [(''com.vmware.vapi.std.errors'',
                     \<lparr>structures =
                        [(''com.vmware.vapi.std.errors.first'', \<lparr>structure_metadata = []\<rparr>),
                         (''com.vmware.vapi.std.errors.second'',
                          \<lparr>structure_metadata = [(''Response'', Some \<lparr>elements = []\<rparr>)]\<rparr>)]\<rparr>)]\<rparr>\<rparr>)],
            error_api_map = [], error_rest_map = default_error_rest_map\<rparr>,
           [no_code_message ''com.vmware.vapi.std.errors.first'',
            no_code_message ''com.vmware.vapi.std.errors.second'']) \<and>
   response_code \<lparr>structure_metadata = [(''Response'', Some \<lparr>elements = []\<rparr>)]\<rparr> = Inl KeyError \<and>
   scan_structures
     [(''com.vmware.vapi.std.errors.second'',
       \<lparr>structure_metadata = [(''Response'', Some \<lparr>elements = []\<rparr>)]\<rparr>)] ([(''e'', 404)], []) =
     Inr ([(''e'', 404)], [no_code_message ''com.vmware.vapi.std.errors.second''])"
proof -
  let ?bad = "\<lparr>structure_metadata =
                    [(''Response'',
                      Some \<lparr>elements = [(''code'', \<lparr>string_value = Some ''abc''\<rparr>)]\<rparr>)]\<rparr>"
  let ?first = "\<lparr>structure_metadata = []\<rparr>"
  let ?second = "\<lparr>structure_metadata = [(''Response'', Some \<lparr>elements = []\<rparr>)]\<rparr>"
  let ?pre = "[(''com.vmware.vapi.std.errors.first'', ?first),
               (''com.vmware.vapi.std.errors.second'', ?second)]"
  let ?pkg = "\<lparr>structures = ?pre @ [(''com.vmware.vapi.std.errors.custom'', ?bad)]\<rparr>"
  let ?comp = "\<lparr>info = \<lparr>packages = [(''com.vmware.vapi.std.errors'', ?pkg)]\<rparr>\<rparr>"
  let ?svc = "[(''com.vmware.vapi'', ?comp)]"
  let ?qpkg = "\<lparr>structures = ?pre\<rparr>"
  let ?qcomp = "\<lparr>info = \<lparr>packages = [(''com.vmware.vapi.std.errors'', ?qpkg)]\<rparr>\<rparr>"
  let ?qsvc = "[(''com.vmware.vapi'', ?qcomp)]"
  note inst = malformed_code_propagates [where st = ?second
      and empty_payload = "\<lparr>elements = []\<rparr>"
      and sname = "''com.vmware.vapi.std.errors.second''" and rest = "[]"
      and api_map = "[(''e'', 404)]" and out = "[]"
      and quiet_svc = ?qsvc and quiet_component = ?qcomp and quiet_package = ?qpkg
      and svc = ?svc and component = ?comp and package = ?pkg and pre = ?pre
      and bad = "''com.vmware.vapi.std.errors.custom''" and st' = ?bad and post = "[]"
      and payload = "\<lparr>elements = [(''code'', \<lparr>string_value = Some ''abc''\<rparr>)]\<rparr>"
      and v = "\<lparr>string_value = Some ''abc''\<rparr>" and code = "''abc''"]
  have i: "py_int ''abc'' = Inl ValueError"
    by (simp add: py_int_def strip_def is_space_def unsigned_int_def digit_value_def)
  have k2: "response_code ?second = Inl KeyError"
    by (simp add: inst [THEN conjunct1])
  have k1: "response_code ?first = Inl KeyError"
    by (simp add: response_code_def)
  have a: "HttpErrorMap_init ?svc = Inl ValueError"
    by (rule mp [OF inst [THEN conjunct2, THEN conjunct2, THEN conjunct2]])
      (simp add: i k1 k2)
  have b0: "HttpErrorMap_init ?qsvc =
      Inr (\<lparr>component_svc = ?qsvc, error_api_map = [],
            error_rest_map = default_error_rest_map\<rparr>,
           map (no_code_message \<circ> fst) (structures ?qpkg))"
    by (rule mp [OF inst [THEN conjunct2, THEN conjunct2, THEN conjunct1]])
      (simp add: k1 k2)
  have b: "HttpErrorMap_init ?qsvc =
      Inr (\<lparr>component_svc = ?qsvc, error_api_map = [],
            error_rest_map = default_error_rest_map\<rparr>,
           [no_code_message ''com.vmware.vapi.std.errors.first'',
            no_code_message ''com.vmware.vapi.std.errors.second''])"
    using b0 by simp
  have c0: "scan_structures ((''com.vmware.vapi.std.errors.second'', ?second) # [])
      ([(''e'', 404)], []) =
      scan_structures [] ([(''e'', 404)], [] @ [no_code_message ''com.vmware.vapi.std.errors.second''])"
    by (rule mp [OF inst [THEN conjunct2, THEN conjunct1]]) simp
  have c: "scan_structures [(''com.vmware.vapi.std.errors.second'', ?second)] ([(''e'', 404)], []) =
     Inr ([(''e'', 404)], [no_code_message ''com.vmware.vapi.std.errors.second''])"
    using c0 by simp
  show ?thesis using i a b k2 c by simp
qed

section \<open>Path reconciliation: the two groups\<close>

lemma find_path_param_Some:
  "find_path_param ps t u = Inr (Some p, u') \<Longrightarrow>
   p \<in> set ps \<and> is_param_path_variable p t = Inr True \<and>
   u' = (if name p \<noteq> t then py_replace u (match_text t) (''{'' @ name p @ ''}'') else u)"
proof (induction ps)
  case Nil
  then show ?case by simp
next
  case (Cons q ps)
  then show ?case
    by (cases "is_param_path_variable q t") (auto split: bool.splits if_splits)
qed

lemma find_path_param_None:
  "find_path_param ps t u = Inr (None, u') \<Longrightarrow>
   u' = u \<and> (\<forall>q \<in> set ps. is_param_path_variable q t = Inr False)"
proof (induction ps)
  case Nil
  then show ?case by simp
next
  case (Cons q ps)
  then show ?case
    by (cases "is_param_path_variable q t") (auto split: bool.splits if_splits)
qed

lemma subseq_remove1: "subseq (remove1 x xs) xs"
  by (induction xs) auto

lemma reconcile_groups:
  "reconcile phs url (pp, ops, nu, err) = Inr (pp', ops', nu', err') \<Longrightarrow>
   mset pp' + mset ops' = mset pp + mset ops \<and> subseq ops' ops"
proof (induction phs arbitrary: pp ops nu err)
  case Nil
  then show ?case by simp
next
  case (Cons t phs)
  show ?case
  proof (cases "find_path_param ops t nu")
    case (Inl e)
    with Cons.prems show ?thesis by simp
  next
    case (Inr r)
    obtain found u where r: "r = (found, u)" by (cases r)
    show ?thesis
    proof (cases found)
      case None
      with Cons.prems Inr r
      have "reconcile phs url (pp, ops, u, err @ [not_found_message t url]) =
          Inr (pp', ops', nu', err')" by simp
      then show ?thesis by (rule Cons.IH)
    next
      case (Some p)
      with Inr r have mem: "p \<in> set ops" using find_path_param_Some by blast
      from Cons.prems Inr r Some
      have "reconcile phs url (pp @ [p], remove1 p ops, u, err) = Inr (pp', ops', nu', err')"
        by simp
      then have ih: "mset pp' + mset ops' = mset (pp @ [p]) + mset (remove1 p ops) \<and>
          subseq ops' (remove1 p ops)" by (rule Cons.IH)
      have "subseq ops' ops"
        using ih subseq_remove1 [of p ops] subseq_order.order_trans by blast
      moreover have "mset pp' + mset ops' = mset pp + mset ops"
        using ih mem by simp
      ultimately show ?thesis by simp
    qed
  qed
qed

lemma is_param_path_variable_total:
  "path_variable_shaped p \<Longrightarrow> \<exists>b. is_param_path_variable p t = Inr b"
  by (auto simp: path_variable_shaped_def is_param_path_variable_def split: option.splits)

lemma find_path_param_total:
  "\<forall>p \<in> set ps. path_variable_shaped p \<Longrightarrow> \<exists>r. find_path_param ps t u = Inr r"
proof (induction ps)
  case Nil
  then show ?case by simp
next
  case (Cons q ps)
  then obtain b where "is_param_path_variable q t = Inr b"
    using is_param_path_variable_total [of q t] by auto
  with Cons show ?case by (cases b) auto
qed

lemma reconcile_total:
  "\<forall>p \<in> set ops. path_variable_shaped p \<Longrightarrow> \<exists>r. reconcile phs url (pp, ops, nu, err) = Inr r"
proof (induction phs arbitrary: pp ops nu err)
  case Nil
  then show ?case by simp
next
  case (Cons t phs)
  from Cons.prems obtain r where r: "find_path_param ops t nu = Inr r"
    using find_path_param_total by blast
  obtain found u where fu: "r = (found, u)" by (cases r)
  show ?case
  proof (cases found)
    case None
    with r fu Cons.IH [OF Cons.prems] show ?thesis by simp
  next
    case (Some p)
    have "\<forall>q \<in> set (remove1 p ops). path_variable_shaped q"
      using Cons.prems by (meson notin_set_remove1)
    from Cons.IH [OF this] r fu Some show ?thesis by simp
  qed
qed

lemma distinct_subseq_filter:
  "distinct xs \<Longrightarrow> subseq ys xs \<Longrightarrow> ys = filter (\<lambda>x. x \<in> set ys) xs"
proof (induction xs arbitrary: ys)
  case Nil
  then show ?case by simp
next
  case (Cons x xs)
  show ?case
  proof (cases ys)
    case Nil
    then show ?thesis by simp
  next
    case (Cons y zs)
    show ?thesis
    proof (cases "x = y")
      case True
      with Cons Cons.prems have sub: "subseq zs xs" by simp
      then have "zs = filter (\<lambda>x. x \<in> set zs) xs" using Cons.IH Cons.prems by simp
      moreover have "x \<notin> set xs" using Cons.prems by simp
      ultimately have "zs = filter (\<lambda>v. v = x \<or> v \<in> set zs) xs"
        by (metis (mono_tags, lifting) filter_cong)
      with True Cons show ?thesis by simp
    next
      case False
      with Cons Cons.prems have sub: "subseq ys xs" by simp
      then have ys: "ys = filter (\<lambda>x. x \<in> set ys) xs" using Cons.IH Cons.prems by simp
      have "x \<notin> set ys"
      proof
        assume "x \<in> set ys"
        then obtain v where "v \<in> set xs" "x = v" using sub list_emb_set [of "(=)" ys xs x] by blast
        with Cons.prems show False by simp
      qed
      with ys show ?thesis by simp
    qed
  qed
qed


lemmas reconcile_eval =
  extract_path_parameters_def is_param_path_variable_def match_text_def py_replace.simps
  newline_def plain_param_def path_variable_param_def

text \<open>
  Claim C3, as the code has it.  When \<open>extract_path_parameters\<close> returns, the path
  group and the other group together hold exactly the parameters of the input, each as
  often as the input has it, and the other group keeps the order of the input.  The two
  groups are disjoint when the input has no parameter twice, and then the other group is
  the input without the path group.  The function returns whenever every \<open>PathVariable\<close>
  annotation of the input has a \<open>value\<close> element.
\<close>

theorem extract_groups_partition:
  "(extract_path_parameters P U = Inr (pp, ops, nu, err) \<longrightarrow>
      set pp \<union> set ops = set P \<and> mset pp + mset ops = mset P \<and> subseq ops P \<and>
      (distinct P \<longrightarrow> set pp \<inter> set ops = {} \<and> ops = filter (\<lambda>p. p \<notin> set pp) P)) \<and>
   ((\<forall>p \<in> set P. path_variable_shaped p) \<longrightarrow> (\<exists>r. extract_path_parameters P U = Inr r))"
proof -
  have "set pp \<union> set ops = set P \<and> mset pp + mset ops = mset P \<and> subseq ops P \<and>
      (distinct P \<longrightarrow> set pp \<inter> set ops = {} \<and> ops = filter (\<lambda>p. p \<notin> set pp) P)"
    if r: "extract_path_parameters P U = Inr (pp, ops, nu, err)"
  proof -
    from r have g: "mset pp + mset ops = mset [] + mset P \<and> subseq ops P"
      unfolding extract_path_parameters_def by (rule reconcile_groups)
    then have m: "mset (pp @ ops) = mset P" by simp
    then have "set (pp @ ops) = set P" by (rule mset_eq_setD)
    then have s: "set pp \<union> set ops = set P" by simp
    have "set pp \<inter> set ops = {} \<and> ops = filter (\<lambda>p. p \<notin> set pp) P" if d: "distinct P"
    proof -
      have "distinct (pp @ ops)" using m d mset_eq_imp_distinct_iff by blast
      then have disj: "set pp \<inter> set ops = {}" by simp
      have "ops = filter (\<lambda>x. x \<in> set ops) P"
        using d g by (simp add: distinct_subseq_filter)
      moreover have "filter (\<lambda>x. x \<in> set ops) P = filter (\<lambda>p. p \<notin> set pp) P"
        using s disj by (intro filter_cong) auto
      ultimately show ?thesis using disj by simp
    qed
    then have "distinct P \<longrightarrow> set pp \<inter> set ops = {} \<and> ops = filter (\<lambda>p. p \<notin> set pp) P"
      by (rule impI)
    moreover have "mset pp + mset ops = mset P" "subseq ops P" using g by simp_all
    ultimately show ?thesis using s by (intro conjI)
  qed
  moreover have "\<exists>r. extract_path_parameters P U = Inr r"
    if "\<forall>p \<in> set P. path_variable_shaped p"
    unfolding extract_path_parameters_def using that by (rule reconcile_total)
  ultimately show ?thesis by blast
qed

theorem extract_groups_partition_witness:
  "extract_path_parameters
     [plain_param ''spec'', path_variable_param ''resource_pool'' ''resource-pool'',
      plain_param ''filter'']
     ''/vcenter/resource-pool/{resource-pool}'' =
     Inr ([path_variable_param ''resource_pool'' ''resource-pool''],
          [plain_param ''spec'', plain_param ''filter''],
          ''/vcenter/resource-pool/{resource_pool}'', []) \<and>
   distinct [plain_param ''spec'', path_variable_param ''resource_pool'' ''resource-pool'',
      plain_param ''filter''] \<and>
   list_all path_variable_shaped
     [plain_param ''spec'', path_variable_param ''resource_pool'' ''resource-pool'',
      plain_param ''filter''] \<and>
   set [path_variable_param ''resource_pool'' ''resource-pool''] \<inter>
     set [plain_param ''spec'', plain_param ''filter''] = {} \<and>
   subseq [plain_param ''spec'', plain_param ''filter'']
     [plain_param ''spec'', path_variable_param ''resource_pool'' ''resource-pool'',
      plain_param ''filter'']"
proof -
  let ?P = "[plain_param ''spec'', path_variable_param ''resource_pool'' ''resource-pool'',
      plain_param ''filter'']"
  let ?U = "''/vcenter/resource-pool/{resource-pool}''"
  have e: "extract_path_parameters ?P ?U =
     Inr ([path_variable_param ''resource_pool'' ''resource-pool''],
          [plain_param ''spec'', plain_param ''filter''],
          ''/vcenter/resource-pool/{resource_pool}'', [])"
    by (simp add: reconcile_eval)
  have d: "distinct ?P" by (simp add: plain_param_def path_variable_param_def)
  have w: "list_all path_variable_shaped ?P"
    by (simp add: path_variable_shaped_def plain_param_def path_variable_param_def)
  from e d extract_groups_partition [of ?P ?U
      "[path_variable_param ''resource_pool'' ''resource-pool'']"
      "[plain_param ''spec'', plain_param ''filter'']"
      "''/vcenter/resource-pool/{resource_pool}''" "[]"]
  have "set [path_variable_param ''resource_pool'' ''resource-pool''] \<inter>
     set [plain_param ''spec'', plain_param ''filter''] = {} \<and>
     subseq [plain_param ''spec'', plain_param ''filter''] ?P"
    by blast
  with e d w show ?thesis by blast
qed

text \<open>
  The claim as the specification states it fails on disjointness: a list that holds the
  same parameter twice gives it to both groups.
\<close>

theorem repeated_parameter_counterexample:
  "extract_path_parameters [plain_param ''a'', plain_param ''a''] ''/{a}'' =
     Inr ([plain_param ''a''], [plain_param ''a''], ''/{a}'', []) \<and>
   set [plain_param ''a''] \<inter> set [plain_param ''a''] \<noteq> {}"
  by (simp add: reconcile_eval)

section \<open>Path reconciliation: first match\<close>

lemma is_param_path_variable_spec:
  "is_param_path_variable p t = Inr b \<Longrightarrow> b = spec_matches p t"
  by (auto simp: is_param_path_variable_def spec_matches_def split: option.splits if_splits)

lemma find_path_param_spec:
  "find_path_param ps t u = Inr (found, u') \<Longrightarrow> found = find (\<lambda>p. spec_matches p t) ps"
proof (induction ps)
  case Nil
  then show ?case by simp
next
  case (Cons q ps)
  show ?case
  proof (cases "is_param_path_variable q t")
    case (Inl e)
    with Cons.prems show ?thesis by simp
  next
    case (Inr b)
    then have "b = spec_matches q t" by (rule is_param_path_variable_spec)
    with Inr Cons show ?thesis by (cases b) auto
  qed
qed




section \<open>Well-formed URL templates\<close>

lemma py_replace_text:
  "CHR ''{'' \<notin> set s \<Longrightarrow>
   py_replace (s @ x) (CHR ''{'' # old) new = s @ py_replace x (CHR ''{'' # old) new"
proof (induction s)
  case Nil
  then show ?case by simp
next
  case (Cons c s)
  then have "py_replace ((c # s) @ x) (CHR ''{'' # old) new =
      c # py_replace (s @ x) (CHR ''{'' # old) new"
    by (subst py_replace.simps) simp
  with Cons show ?case by simp
qed

lemma py_replace_close:
  "py_replace (CHR ''}'' # x) (CHR ''{'' # old) new = CHR ''}'' # py_replace x (CHR ''{'' # old) new"
  by (subst py_replace.simps) simp

lemma py_replace_nil: "py_replace [] (CHR ''{'' # old) new = []"
  by (subst py_replace.simps) simp

lemma append_sep_eq:
  "c \<notin> set a \<Longrightarrow> c \<notin> set b \<Longrightarrow> a @ c # x = b @ c # y \<Longrightarrow> a = b"
proof (induction a arbitrary: b)
  case Nil
  then show ?case by (cases b) auto
next
  case (Cons d a)
  then show ?case by (cases b) auto
qed

lemma prefix_match_text:
  assumes "brace_free t" "brace_free u"
  shows "prefix (match_text t) (match_text u @ rest) = (t = u)"
proof
  assume "prefix (match_text t) (match_text u @ rest)"
  then obtain zs where "t @ CHR ''}'' # zs = u @ CHR ''}'' # rest"
    by (auto simp: match_text_def prefix_def)
  with assms show "t = u" using append_sep_eq [of "CHR ''}''" t u zs rest]
    by (simp add: brace_free_def)
next
  assume "t = u"
  then show "prefix (match_text t) (match_text u @ rest)" by simp
qed

lemma py_replace_render:
  "list_all wf_segment segs \<Longrightarrow> brace_free t \<Longrightarrow>
   py_replace (render segs) (match_text t) (match_text n) = render (map (rename t n) segs)"
proof (induction segs)
  case Nil
  then show ?case by (simp add: match_text_def py_replace_nil)
next
  case (Cons seg segs)
  then have ih: "py_replace (render segs) (match_text t) (match_text n) =
      render (map (rename t n) segs)" by simp
  show ?case
  proof (cases seg)
    case (Text s)
    with Cons.prems have "CHR ''{'' \<notin> set s" by (simp add: brace_free_def)
    then show ?thesis using Text ih py_replace_text [of s "render segs" "t @ ''}''" "match_text n"]
      by (simp add: match_text_def)
  next
    case (Placeholder u)
    with Cons.prems have u: "brace_free u" by (simp add: wf_token_def)
    have r: "render (seg # segs) = match_text u @ render segs"
      using Placeholder by (simp add: match_text_def)
    show ?thesis
    proof (cases "u = t")
      case True
      have "py_replace (match_text t @ render segs) (match_text t) (match_text n) =
          match_text n @ py_replace (render segs) (match_text t) (match_text n)"
        by (subst py_replace.simps) (simp add: match_text_def)
      with True r ih Placeholder show ?thesis by (simp add: match_text_def)
    next
      case False
      then have np: "\<not> prefix (match_text t) (match_text u @ render segs)"
        using prefix_match_text [OF Cons.prems(2) u] by auto
      have "py_replace (match_text u @ render segs) (match_text t) (match_text n) =
          CHR ''{'' # py_replace (u @ CHR ''}'' # render segs) (match_text t) (match_text n)"
        using np by (subst py_replace.simps) (simp add: match_text_def)
      also have "\<dots> = CHR ''{'' # u @ CHR ''}'' #
          py_replace (render segs) (match_text t) (match_text n)"
        using u py_replace_text [of u "CHR ''}'' # render segs" "t @ ''}''" "match_text n"]
          py_replace_close [of "render segs" "t @ ''}''" "match_text n"]
        by (simp add: match_text_def brace_free_def)
      finally show ?thesis using False r ih Placeholder by (simp add: match_text_def)
    qed
  qed
qed

lemma finditer_text: "CHR ''{'' \<notin> set s \<Longrightarrow> finditer (s @ x) = finditer x"
  by (induction s) auto

lemma lazy_tail_token:
  "CHR ''}'' \<notin> set u \<Longrightarrow> newline \<notin> set u \<Longrightarrow> lazy_tail (u @ CHR ''}'' # rest) = Some u"
  by (induction u) auto

lemma match_group_token:
  "wf_token u \<Longrightarrow> match_group (u @ CHR ''}'' # rest) = Some u"
  by (cases u) (auto simp: wf_token_def brace_free_def lazy_tail_token)

lemma finditer_render:
  "list_all wf_segment segs \<Longrightarrow> finditer (render segs) = placeholders segs"
proof (induction segs)
  case Nil
  then show ?case by simp
next
  case (Cons seg segs)
  show ?case
  proof (cases seg)
    case (Text s)
    with Cons show ?thesis by (simp add: finditer_text brace_free_def)
  next
    case (Placeholder u)
    with Cons.prems have "wf_token u" by simp
    then have "match_group (u @ CHR ''}'' # render segs) = Some u" by (rule match_group_token)
    with Cons Placeholder show ?thesis by simp
  qed
qed

lemma wf_rename:
  "list_all wf_segment segs \<Longrightarrow> wf_token n \<Longrightarrow> list_all wf_segment (map (rename t n) segs)"
proof (induction segs)
  case Nil
  then show ?case by simp
next
  case (Cons seg segs)
  then show ?case by (cases seg) auto
qed

lemma placeholders_rename:
  "placeholders (map (rename t n) segs) = map (\<lambda>u. if u = t then n else u) (placeholders segs)"
proof (induction segs)
  case Nil
  then show ?case by simp
next
  case (Cons seg segs)
  then show ?case by (cases seg) auto
qed

lemma wf_placeholders:
  "list_all wf_segment segs \<Longrightarrow> \<forall>t \<in> set (placeholders segs). wf_token t"
proof (induction segs)
  case Nil
  then show ?case by simp
next
  case (Cons seg segs)
  then show ?case by (cases seg) auto
qed

lemma sublist_skip_text:
  "c \<notin> set s \<Longrightarrow> sublist (c # old) (s @ r) \<Longrightarrow> sublist (c # old) r"
  by (induction s) (auto simp: sublist_Cons_right)

lemma sublist_match_text_render:
  "list_all wf_segment segs \<Longrightarrow> brace_free t \<Longrightarrow> sublist (match_text t) (render segs) \<Longrightarrow>
   t \<in> set (placeholders segs)"
proof (induction segs)
  case Nil
  then show ?case by (simp add: match_text_def)
next
  case (Cons seg segs)
  show ?case
  proof (cases seg)
    case (Text s)
    with Cons.prems have "CHR ''{'' \<notin> set s" by (simp add: brace_free_def)
    then have "sublist (match_text t) (render segs)"
      using Cons.prems(3) Text sublist_skip_text [of "CHR ''{''" s "t @ ''}''" "render segs"]
      by (simp add: match_text_def)
    with Cons Text show ?thesis by simp
  next
    case (Placeholder u)
    with Cons.prems have u: "brace_free u" by (simp add: wf_token_def)
    have r: "render (seg # segs) = CHR ''{'' # u @ CHR ''}'' # render segs"
      using Placeholder by simp
    from Cons.prems(3) r
    have "prefix (match_text t) (match_text u @ render segs) \<or>
        sublist (match_text t) (u @ CHR ''}'' # render segs)"
      by (simp add: sublist_Cons_right match_text_def)
    then show ?thesis
    proof
      assume "prefix (match_text t) (match_text u @ render segs)"
      then have "t = u" using prefix_match_text [OF Cons.prems(2) u] by simp
      with Placeholder show ?thesis by simp
    next
      assume "sublist (match_text t) (u @ CHR ''}'' # render segs)"
      then have "sublist (match_text t) (CHR ''}'' # render segs)"
        using u sublist_skip_text [of "CHR ''{''" u "t @ ''}''" "CHR ''}'' # render segs"]
        by (simp add: match_text_def brace_free_def)
      then have "sublist (match_text t) (render segs)"
        by (simp add: sublist_Cons_right match_text_def)
      with Cons Placeholder show ?thesis by simp
    qed
  qed
qed

section \<open>Rewriting the URL\<close>

lemma rename_absent:
  "t \<notin> set (placeholders segs) \<Longrightarrow> map (rename t n) segs = segs"
proof (induction segs)
  case Nil
  then show ?case by simp
next
  case (Cons seg segs)
  then show ?case by (cases seg) auto
qed

lemma find_path_param_url:
  "find_path_param ps t u = Inr (found, u') \<Longrightarrow>
   u' = u \<or> (\<exists>p. found = Some p \<and> u' = py_replace u (match_text t) (match_text (name p)))"
proof (cases found)
  case None
  assume "find_path_param ps t u = Inr (found, u')"
  with None show ?thesis using find_path_param_None by blast
next
  case (Some p)
  assume "find_path_param ps t u = Inr (found, u')"
  with Some show ?thesis using find_path_param_Some [of ps t u p u']
    by (auto simp: match_text_def)
qed

lemma reconcile_keeps_absent:
  assumes "reconcile phs url (pp, ops, render cur, err) = Inr (pp', ops', nu', err')"
    and "list_all wf_segment cur"
    and "\<forall>q \<in> set ops. wf_token (name q) \<and> name q \<noteq> t"
    and "\<forall>x \<in> set phs. wf_token x"
    and "t \<notin> set (placeholders cur)"
  shows "\<exists>cur'. nu' = render cur' \<and> list_all wf_segment cur' \<and>
           t \<notin> set (placeholders cur') \<and> set ops' \<subseteq> set ops"
  using assms
proof (induction phs arbitrary: pp ops cur err)
  case Nil
  then have "nu' = render cur" "ops' = ops" by simp_all
  with Nil.prems(2,5) show ?case by blast
next
  case (Cons x phs)
  have x: "wf_token x" using Cons.prems(4) by simp
  have phs: "\<forall>y \<in> set phs. wf_token y" using Cons.prems(4) by simp
  show ?case
  proof (cases "find_path_param ops x (render cur)")
    case (Inl e)
    with Cons.prems(1) show ?thesis by simp
  next
    case (Inr r)
    obtain found u where r: "r = (found, u)" by (cases r)
    show ?thesis
    proof (cases found)
      case None
      from Inr r None have u: "u = render cur"
        using find_path_param_None [of ops x "render cur" u] by simp
      from Cons.prems(1) Inr r None u
      have step: "reconcile phs url (pp, ops, render cur, err @ [not_found_message x url]) =
          Inr (pp', ops', nu', err')" by simp
      show ?thesis
        by (rule Cons.IH [OF step Cons.prems(2) Cons.prems(3) phs Cons.prems(5)])
    next
      case (Some p)
      from Inr r Some have f: "find_path_param ops x (render cur) = Inr (Some p, u)" by simp
      have mem: "p \<in> set ops" using find_path_param_Some [OF f] by simp
      then have n: "wf_token (name p)" and nt: "name p \<noteq> t" using Cons.prems(3) by simp_all
      have bx: "brace_free x" using x by (simp add: wf_token_def)
      define cur' where "cur' = (if name p \<noteq> x then map (rename x (name p)) cur else cur)"
      have u: "u = render cur'"
        using find_path_param_Some [OF f] py_replace_render [OF Cons.prems(2) bx, of "name p"]
        by (simp add: cur'_def match_text_def)
      have wf': "list_all wf_segment cur'"
        using Cons.prems(2) n by (simp add: cur'_def wf_rename)
      have absent: "t \<notin> set (placeholders cur')"
        using Cons.prems(5) nt by (auto simp: cur'_def placeholders_rename)
      from Cons.prems(1) Inr r Some u
      have step: "reconcile phs url (pp @ [p], remove1 p ops, render cur', err) =
          Inr (pp', ops', nu', err')" by simp
      have names: "\<forall>q \<in> set (remove1 p ops). wf_token (name q) \<and> name q \<noteq> t"
        using Cons.prems(3) by (meson notin_set_remove1)
      from Cons.IH [OF step wf' names phs absent]
      obtain cur'' where c: "nu' = render cur''" "list_all wf_segment cur''"
          "t \<notin> set (placeholders cur'')" "set ops' \<subseteq> set (remove1 p ops)"
        by blast
      have "set ops' \<subseteq> set ops" using c(4) set_remove1_subset [of p ops] by blast
      with c show ?thesis by blast
    qed
  qed
qed

lemma pass_without_occurrence:
  assumes "list_all wf_segment cur" "wf_token t" "t \<notin> set (placeholders cur)"
    and "find_path_param ops t (render cur) = Inr (found, nu)"
  shows "nu = render cur"
proof -
  have bt: "brace_free t" using assms(2) by (simp add: wf_token_def)
  have "py_replace (render cur) (match_text t) (match_text m) = render cur" for m
  proof -
    have "py_replace (render cur) (match_text t) (match_text m) = render (map (rename t m) cur)"
      using assms(1) bt by (rule py_replace_render)
    also have "map (rename t m) cur = cur" using assms(3) by (rule rename_absent)
    finally show ?thesis .
  qed
  with find_path_param_url [OF assms(4)] show ?thesis by auto
qed

text \<open>
  Claim C9, as the code has it.  The rewrite is one replacement over the whole string:
  when the first parameter \<open>p\<close> of the pool that matches the placeholder \<open>t\<close> has another
  name, the new URL is the current one with every occurrence of \<open>{t}\<close> replaced by
  \<open>{name p}\<close>.  For a well-formed template and a well-formed name this is the template
  with every placeholder \<open>t\<close> renamed, also where \<open>t\<close> occurs more than once, and no
  \<open>{t}\<close> is left in it, so that a pass for \<open>t\<close> on that URL changes nothing.  When
  moreover no parameter left in the pool is named \<open>t\<close>, no later pass of the loop brings
  \<open>{t}\<close> back, and a pass for \<open>t\<close> after any number of further passes leaves the URL as
  it is.
\<close>

theorem rewrite_replaces_every_occurrence:
  "(find_path_param ops t u = Inr (Some p, nu) \<and> name p \<noteq> t \<longrightarrow>
      Some p = find (\<lambda>q. spec_matches q t) ops \<and>
      nu = py_replace u (match_text t) (match_text (name p))) \<and>
   (list_all wf_segment segs \<and> wf_token t \<and> wf_token (name p) \<and> name p \<noteq> t \<and>
    find_path_param ops t (render segs) = Inr (Some p, nu) \<longrightarrow>
      nu = render (map (rename t (name p)) segs) \<and>
      t \<notin> set (finditer nu) \<and>
      \<not> sublist (match_text t) nu \<and>
      (\<forall>ops' found nu'. find_path_param ops' t nu = Inr (found, nu') \<longrightarrow> nu' = nu)) \<and>
   (list_all wf_segment segs \<and> wf_token t \<and> wf_token (name p) \<and> name p \<noteq> t \<and>
    find_path_param ops t (render segs) = Inr (Some p, nu) \<and>
    (\<forall>q \<in> set (remove1 p ops). wf_token (name q) \<and> name q \<noteq> t) \<and>
    (\<forall>x \<in> set phs. wf_token x) \<and>
    reconcile phs url (pp, remove1 p ops, nu, err) =
      Inr (pp_later, ops_later, nu_later, err_later) \<and>
    find_path_param ops_later t nu_later = Inr (found_later, nu_after) \<longrightarrow>
      t \<notin> set (finditer nu_later) \<and>
      \<not> sublist (match_text t) nu_later \<and>
      nu_after = nu_later)"
proof (intro conjI impI)
  assume a: "find_path_param ops t u = Inr (Some p, nu) \<and> name p \<noteq> t"
  then show "Some p = find (\<lambda>q. spec_matches q t) ops"
    using find_path_param_spec by blast
  from a show "nu = py_replace u (match_text t) (match_text (name p))"
    using find_path_param_Some [of ops t u p nu] by (simp add: match_text_def)
next
  assume h: "list_all wf_segment segs \<and> wf_token t \<and> wf_token (name p) \<and> name p \<noteq> t \<and>
    find_path_param ops t (render segs) = Inr (Some p, nu)"
  then have wf: "list_all wf_segment segs" and t: "wf_token t" and n: "wf_token (name p)"
    and ne: "name p \<noteq> t" and f: "find_path_param ops t (render segs) = Inr (Some p, nu)"
    by simp_all
  let ?segs' = "map (rename t (name p)) segs"
  have bt: "brace_free t" using t by (simp add: wf_token_def)
  have nu1: "nu = py_replace (render segs) (match_text t) (match_text (name p))"
    using find_path_param_Some [OF f] ne by (simp add: match_text_def)
  show nu2: "nu = render ?segs'"
    using nu1 py_replace_render [OF wf bt] by simp
  have wf': "list_all wf_segment ?segs'" using wf n by (rule wf_rename)
  have absent: "t \<notin> set (placeholders ?segs')"
    using ne by (auto simp: placeholders_rename)
  show "t \<notin> set (finditer nu)"
    using absent finditer_render [OF wf'] nu2 by simp
  show "\<not> sublist (match_text t) nu"
    using absent sublist_match_text_render [OF wf' bt] nu2 by blast
  show "\<forall>ops' found nu'. find_path_param ops' t nu = Inr (found, nu') \<longrightarrow> nu' = nu"
    using pass_without_occurrence [OF wf' t absent] nu2 by blast
next
  assume h: "list_all wf_segment segs \<and> wf_token t \<and> wf_token (name p) \<and> name p \<noteq> t \<and>
    find_path_param ops t (render segs) = Inr (Some p, nu) \<and>
    (\<forall>q \<in> set (remove1 p ops). wf_token (name q) \<and> name q \<noteq> t) \<and>
    (\<forall>x \<in> set phs. wf_token x) \<and>
    reconcile phs url (pp, remove1 p ops, nu, err) =
      Inr (pp_later, ops_later, nu_later, err_later) \<and>
    find_path_param ops_later t nu_later = Inr (found_later, nu_after)"
  then have wf: "list_all wf_segment segs" and t: "wf_token t" and n: "wf_token (name p)"
    and ne: "name p \<noteq> t" and f: "find_path_param ops t (render segs) = Inr (Some p, nu)"
    and pool: "\<forall>q \<in> set (remove1 p ops). wf_token (name q) \<and> name q \<noteq> t"
    and phs: "\<forall>x \<in> set phs. wf_token x"
    and rec: "reconcile phs url (pp, remove1 p ops, nu, err) =
      Inr (pp_later, ops_later, nu_later, err_later)"
    and later: "find_path_param ops_later t nu_later = Inr (found_later, nu_after)"
    by simp_all
  let ?segs' = "map (rename t (name p)) segs"
  have bt: "brace_free t" using t by (simp add: wf_token_def)
  have nu2: "nu = render ?segs'"
    using find_path_param_Some [OF f] ne py_replace_render [OF wf bt, of "name p"]
    by (simp add: match_text_def)
  have wf': "list_all wf_segment ?segs'" using wf n by (rule wf_rename)
  have absent: "t \<notin> set (placeholders ?segs')"
    using ne by (auto simp: placeholders_rename)
  from reconcile_keeps_absent [OF rec [unfolded nu2] wf' pool phs absent]
  obtain cur where c: "nu_later = render cur" "list_all wf_segment cur"
      "t \<notin> set (placeholders cur)"
    by blast
  show "t \<notin> set (finditer nu_later)"
    using c finditer_render [OF c(2)] by simp
  show "\<not> sublist (match_text t) nu_later"
    using c sublist_match_text_render [OF c(2) bt] by blast
  show "nu_after = nu_later"
    using pass_without_occurrence [OF c(2) t c(3)] later c(1) by blast
qed

theorem rewrite_replaces_every_occurrence_witness:
  "list_all wf_segment
     [Text ''/'', Placeholder ''x'', Text ''/'', Placeholder ''s'', Text ''/'', Placeholder ''x''] \<and>
   wf_token ''x'' \<and>
   find_path_param
     [path_variable_param ''na'' ''x'', path_variable_param ''m'' ''s'',
      path_variable_param ''nb'' ''x''] ''x'' ''/{x}/{s}/{x}'' =
     Inr (Some (path_variable_param ''na'' ''x''), ''/{na}/{s}/{na}'') \<and>
   ''/{na}/{s}/{na}'' = py_replace ''/{x}/{s}/{x}'' (match_text ''x'') (match_text ''na'') \<and>
   ''x'' \<notin> set (finditer ''/{na}/{s}/{na}'') \<and>
   reconcile [''s''] ''/{x}/{s}/{x}''
     ([path_variable_param ''na'' ''x''],
      [path_variable_param ''m'' ''s'', path_variable_param ''nb'' ''x''],
      ''/{na}/{s}/{na}'', []) =
     Inr ([path_variable_param ''na'' ''x'', path_variable_param ''m'' ''s''],
          [path_variable_param ''nb'' ''x''], ''/{na}/{m}/{na}'', []) \<and>
   ''x'' \<notin> set (finditer ''/{na}/{m}/{na}'') \<and>
   find_path_param [path_variable_param ''nb'' ''x''] ''x'' ''/{na}/{m}/{na}'' =
     Inr (Some (path_variable_param ''nb'' ''x''), ''/{na}/{m}/{na}'') \<and>
   extract_path_parameters
     [path_variable_param ''na'' ''x'', path_variable_param ''m'' ''s'',
      path_variable_param ''nb'' ''x''] ''/{x}/{s}/{x}'' =
     Inr ([path_variable_param ''na'' ''x'', path_variable_param ''m'' ''s'',
           path_variable_param ''nb'' ''x''], [], ''/{na}/{m}/{na}'', [])"
proof -
  let ?segs = "[Text ''/'', Placeholder ''x'', Text ''/'', Placeholder ''s'', Text ''/'',
               Placeholder ''x'']"
  let ?p = "path_variable_param ''na'' ''x''"
  let ?m = "path_variable_param ''m'' ''s''"
  let ?q = "path_variable_param ''nb'' ''x''"
  let ?url = "''/{x}/{s}/{x}''"
  let ?nu = "''/{na}/{s}/{na}''"
  let ?later = "''/{na}/{m}/{na}''"
  note inst = rewrite_replaces_every_occurrence [where ops = "[?p, ?m, ?q]" and t = "''x''"
      and u = "render ?segs" and p = ?p and nu = ?nu and segs = ?segs and phs = "[''s'']"
      and url = ?url and pp = "[?p]" and err = "[]" and pp_later = "[?p, ?m]"
      and ops_later = "[?q]" and nu_later = ?later and err_later = "[]"
      and found_later = "Some ?q" and nu_after = ?later]
  have wf: "list_all wf_segment ?segs"
    by (simp add: wf_token_def brace_free_def newline_def)
  have t: "wf_token ''x''" by (simp add: wf_token_def brace_free_def newline_def)
  have n: "wf_token (name ?p)"
    by (simp add: wf_token_def brace_free_def newline_def path_variable_param_def)
  have ne: "name ?p \<noteq> ''x''" by (simp add: path_variable_param_def)
  have nm: "name ?p = ''na''" by (simp add: path_variable_param_def)
  have rs: "render ?segs = ?url" by simp
  have f: "find_path_param [?p, ?m, ?q] ''x'' (render ?segs) = Inr (Some ?p, ?nu)"
    by (simp add: reconcile_eval)
  have rem: "remove1 ?p [?p, ?m, ?q] = [?m, ?q]" by simp
  have pool: "\<forall>q \<in> set (remove1 ?p [?p, ?m, ?q]). wf_token (name q) \<and> name q \<noteq> ''x''"
    unfolding rem
    by (simp add: wf_token_def brace_free_def newline_def path_variable_param_def)
  have phs: "\<forall>x \<in> set [''s'']. wf_token x"
    by (simp add: wf_token_def brace_free_def newline_def)
  have r: "reconcile [''s''] ?url ([?p], remove1 ?p [?p, ?m, ?q], ?nu, []) =
      Inr ([?p, ?m], [?q], ?later, [])"
    unfolding rem by (simp add: reconcile_eval)
  have g: "find_path_param [?q] ''x'' ?later = Inr (Some ?q, ?later)"
    by (simp add: reconcile_eval)
  have e: "extract_path_parameters [?p, ?m, ?q] ?url = Inr ([?p, ?m, ?q], [], ?later, [])"
    by (simp add: reconcile_eval)
  have c1: "?nu = py_replace (render ?segs) (match_text ''x'') (match_text (name ?p))"
    using inst [THEN conjunct1] f ne by blast
  have c2: "''x'' \<notin> set (finditer ?nu)"
    using inst [THEN conjunct2, THEN conjunct1] wf t n ne f by blast
  have c3: "''x'' \<notin> set (finditer ?later)"
    using inst [THEN conjunct2, THEN conjunct2] wf t n ne f pool phs r g by blast
  show ?thesis
    using wf t f [unfolded rs] c1 [unfolded rs nm] c2 r [unfolded rem] c3 g e by blast
qed

text \<open>
  The claim as the specification states it fails in its last part.  For
  \<open>/{t}/{s}/{t}\<close> the first pass renames both \<open>{t}\<close> to \<open>{n1}\<close>; the pass for \<open>s\<close> finds
  the parameter named \<open>t\<close> and puts \<open>{t}\<close> back; the later pass for the duplicated
  placeholder \<open>t\<close> then does find an occurrence and rewrites it to \<open>{n3}\<close>.
\<close>

theorem later_pass_rewrites_counterexample:
  "find_path_param
     [path_variable_param ''n1'' ''t'', path_variable_param ''t'' ''s'',
      path_variable_param ''n3'' ''t''] ''t'' ''/{t}/{s}/{t}'' =
     Inr (Some (path_variable_param ''n1'' ''t''), ''/{n1}/{s}/{n1}'') \<and>
   find_path_param [path_variable_param ''t'' ''s'', path_variable_param ''n3'' ''t''] ''s''
     ''/{n1}/{s}/{n1}'' =
     Inr (Some (path_variable_param ''t'' ''s''), ''/{n1}/{t}/{n1}'') \<and>
   find_path_param [path_variable_param ''n3'' ''t''] ''t'' ''/{n1}/{t}/{n1}'' =
     Inr (Some (path_variable_param ''n3'' ''t''), ''/{n1}/{n3}/{n1}'') \<and>
   ''/{n1}/{n3}/{n1}'' \<noteq> ''/{n1}/{t}/{n1}'' \<and>
   extract_path_parameters
     [path_variable_param ''n1'' ''t'', path_variable_param ''t'' ''s'',
      path_variable_param ''n3'' ''t''] ''/{t}/{s}/{t}'' =
     Inr ([path_variable_param ''n1'' ''t'', path_variable_param ''t'' ''s'',
           path_variable_param ''n3'' ''t''], [], ''/{n1}/{n3}/{n1}'', [])"
  by (simp add: reconcile_eval)

section \<open>Placeholders of the returned URL\<close>

lemma reconcile_tokens:
  assumes "reconcile phs url (pp, ops, render cur, err) = Inr (pp', ops', nu', err')"
    and "list_all wf_segment cur"
    and "\<forall>p \<in> set ops. wf_token (name p)"
    and "\<forall>t \<in> set phs. wf_token t \<and> t \<in> T"
    and "\<forall>t \<in> set (placeholders cur).
           t \<in> name ` set pp \<or> t \<in> set phs \<or>
           (t \<in> T \<and> not_found_message t url \<in> set err \<and>
            (\<forall>q \<in> set ops. is_param_path_variable q t = Inr False))"
  shows "\<forall>t \<in> set (finditer nu').
           t \<in> name ` set pp' \<or>
           (t \<in> T \<and> not_found_message t url \<in> set err' \<and>
            (\<forall>q \<in> set ops'. is_param_path_variable q t = Inr False))"
  using assms
proof (induction phs arbitrary: pp ops cur err)
  case Nil
  then have "nu' = render cur" "pp' = pp" "ops' = ops" "err' = err" by simp_all
  with Nil.prems(2,5) show ?case by (simp add: finditer_render)
next
  case (Cons t0 phs)
  have t0: "wf_token t0" "t0 \<in> T" using Cons.prems(4) by simp_all
  have phs: "\<forall>t \<in> set phs. wf_token t \<and> t \<in> T" using Cons.prems(4) by simp
  show ?case
  proof (cases "find_path_param ops t0 (render cur)")
    case (Inl e)
    with Cons.prems(1) show ?thesis by simp
  next
    case (Inr r)
    obtain found u where r: "r = (found, u)" by (cases r)
    show ?thesis
    proof (cases found)
      case None
      from Inr r None have u: "u = render cur"
        and nomatch: "\<forall>q \<in> set ops. is_param_path_variable q t0 = Inr False"
        using find_path_param_None [of ops t0 "render cur" u] by simp_all
      from Cons.prems(1) Inr r None u
      have step: "reconcile phs url (pp, ops, render cur, err @ [not_found_message t0 url]) =
          Inr (pp', ops', nu', err')" by simp
      have inv: "\<forall>t \<in> set (placeholders cur).
           t \<in> name ` set pp \<or> t \<in> set phs \<or>
           (t \<in> T \<and> not_found_message t url \<in> set (err @ [not_found_message t0 url]) \<and>
            (\<forall>q \<in> set ops. is_param_path_variable q t = Inr False))"
      proof
        fix t assume "t \<in> set (placeholders cur)"
        with Cons.prems(5) have "t \<in> name ` set pp \<or> t \<in> set (t0 # phs) \<or>
           (t \<in> T \<and> not_found_message t url \<in> set err \<and>
            (\<forall>q \<in> set ops. is_param_path_variable q t = Inr False))" by blast
        then show "t \<in> name ` set pp \<or> t \<in> set phs \<or>
           (t \<in> T \<and> not_found_message t url \<in> set (err @ [not_found_message t0 url]) \<and>
            (\<forall>q \<in> set ops. is_param_path_variable q t = Inr False))"
          using nomatch t0(2) by auto
      qed
      show ?thesis by (rule Cons.IH [OF step Cons.prems(2) Cons.prems(3) phs inv])
    next
      case (Some p)
      from Inr r Some have f: "find_path_param ops t0 (render cur) = Inr (Some p, u)" by simp
      have mem: "p \<in> set ops" using find_path_param_Some [OF f] by simp
      then have n: "wf_token (name p)" using Cons.prems(3) by simp
      have bt: "brace_free t0" using t0(1) by (simp add: wf_token_def)
      define cur' where "cur' = (if name p \<noteq> t0 then map (rename t0 (name p)) cur else cur)"
      have u: "u = render cur'"
        using find_path_param_Some [OF f] py_replace_render [OF Cons.prems(2) bt, of "name p"]
        by (simp add: cur'_def match_text_def)
      have wf': "list_all wf_segment cur'"
        using Cons.prems(2) n by (simp add: cur'_def wf_rename)
      from Cons.prems(1) Inr r Some u
      have step: "reconcile phs url (pp @ [p], remove1 p ops, render cur', err) =
          Inr (pp', ops', nu', err')" by simp
      have names: "\<forall>q \<in> set (remove1 p ops). wf_token (name q)"
        using Cons.prems(3) by (meson notin_set_remove1)
      have inv: "\<forall>t \<in> set (placeholders cur').
           t \<in> name ` set (pp @ [p]) \<or> t \<in> set phs \<or>
           (t \<in> T \<and> not_found_message t url \<in> set err \<and>
            (\<forall>q \<in> set (remove1 p ops). is_param_path_variable q t = Inr False))"
      proof
        fix t assume t: "t \<in> set (placeholders cur')"
        have "t = name p \<or> (t \<noteq> t0 \<and> t \<in> set (placeholders cur))"
        proof (cases "name p = t0")
          case True
          with t show ?thesis by (auto simp: cur'_def)
        next
          case False
          with t show ?thesis by (auto simp: cur'_def placeholders_rename split: if_splits)
        qed
        then show "t \<in> name ` set (pp @ [p]) \<or> t \<in> set phs \<or>
           (t \<in> T \<and> not_found_message t url \<in> set err \<and>
            (\<forall>q \<in> set (remove1 p ops). is_param_path_variable q t = Inr False))"
        proof
          assume "t = name p"
          then show ?thesis by simp
        next
          assume a: "t \<noteq> t0 \<and> t \<in> set (placeholders cur)"
          with Cons.prems(5) have "t \<in> name ` set pp \<or> t \<in> set (t0 # phs) \<or>
             (t \<in> T \<and> not_found_message t url \<in> set err \<and>
              (\<forall>q \<in> set ops. is_param_path_variable q t = Inr False))" by blast
          with a show ?thesis by (auto dest: notin_set_remove1)
        qed
      qed
      show ?thesis by (rule Cons.IH [OF step wf' names phs inv])
    qed
  qed
qed

text \<open>
  Claim C1, as the code has it.  A placeholder that no parameter matches stays in the
  URL and has no parameter in the path group; it is reported on the error stream.  For a
  well-formed template and parameters with well-formed names, every placeholder of the
  returned URL is the name of a parameter of the returned path group, or is a placeholder
  of the input URL that was reported as not found and that no parameter of the returned
  other group matches.
\<close>

theorem placeholders_named_or_reported:
  "list_all wf_segment segs \<and> list_all (\<lambda>p. wf_token (name p)) P \<and>
   extract_path_parameters P (render segs) = Inr (pp, ops, nu, err) \<longrightarrow>
     (\<forall>t \<in> set (finditer nu).
        (\<exists>p \<in> set pp. name p = t) \<or>
        (t \<in> set (finditer (render segs)) \<and>
         not_found_message t (render segs) \<in> set err \<and>
         (\<forall>q \<in> set ops. is_param_path_variable q t = Inr False)))"
proof (intro impI, elim conjE)
  assume wf: "list_all wf_segment segs" and names: "list_all (\<lambda>p. wf_token (name p)) P"
    and e: "extract_path_parameters P (render segs) = Inr (pp, ops, nu, err)"
  have toks: "finditer (render segs) = placeholders segs" using wf by (rule finditer_render)
  have r: "reconcile (placeholders segs) (render segs) ([], P, render segs, []) =
      Inr (pp, ops, nu, err)"
    using e toks by (simp add: extract_path_parameters_def)
  have n: "\<forall>p \<in> set P. wf_token (name p)" using names by (simp add: list_all_iff)
  have phs: "\<forall>t \<in> set (placeholders segs). wf_token t \<and> t \<in> set (placeholders segs)"
    using wf_placeholders [OF wf] by simp
  have inv: "\<forall>t \<in> set (placeholders segs).
           t \<in> name ` set [] \<or> t \<in> set (placeholders segs) \<or>
           (t \<in> set (placeholders segs) \<and> not_found_message t (render segs) \<in> set [] \<and>
            (\<forall>q \<in> set P. is_param_path_variable q t = Inr False))" by simp
  have img: "(t \<in> name ` set pp) = (\<exists>p \<in> set pp. name p = t)" for t by auto
  have "\<forall>t \<in> set (finditer nu).
           t \<in> name ` set pp \<or>
           (t \<in> set (placeholders segs) \<and> not_found_message t (render segs) \<in> set err \<and>
            (\<forall>q \<in> set ops. is_param_path_variable q t = Inr False))"
    by (rule reconcile_tokens [OF r wf n phs inv])
  then show "\<forall>t \<in> set (finditer nu).
        (\<exists>p \<in> set pp. name p = t) \<or>
        (t \<in> set (finditer (render segs)) \<and>
         not_found_message t (render segs) \<in> set err \<and>
         (\<forall>q \<in> set ops. is_param_path_variable q t = Inr False))"
    unfolding toks img .
qed

theorem placeholders_named_or_reported_witness:
  "list_all wf_segment [Text ''/a/'', Placeholder ''x'', Text ''/b/'', Placeholder ''w''] \<and>
   list_all (\<lambda>p. wf_token (name p)) [plain_param ''spec'', path_variable_param ''y'' ''x''] \<and>
   extract_path_parameters [plain_param ''spec'', path_variable_param ''y'' ''x'']
     (render [Text ''/a/'', Placeholder ''x'', Text ''/b/'', Placeholder ''w'']) =
     Inr ([path_variable_param ''y'' ''x''], [plain_param ''spec''], ''/a/{y}/b/{w}'',
          [not_found_message ''w'' ''/a/{x}/b/{w}'']) \<and>
   finditer ''/a/{y}/b/{w}'' = [''y'', ''w''] \<and>
   list_all (\<lambda>t. (\<exists>p \<in> set [path_variable_param ''y'' ''x'']. name p = t) \<or>
                 not_found_message t ''/a/{x}/b/{w}'' \<in>
                   set [not_found_message ''w'' ''/a/{x}/b/{w}''])
     (finditer ''/a/{y}/b/{w}'')"
proof -
  let ?segs = "[Text ''/a/'', Placeholder ''x'', Text ''/b/'', Placeholder ''w'']"
  let ?P = "[plain_param ''spec'', path_variable_param ''y'' ''x'']"
  have wf: "list_all wf_segment ?segs"
    by (simp add: wf_token_def brace_free_def newline_def)
  have n: "list_all (\<lambda>p. wf_token (name p)) ?P"
    by (simp add: wf_token_def brace_free_def newline_def plain_param_def path_variable_param_def)
  have rs: "render ?segs = ''/a/{x}/b/{w}''" by simp
  have e: "extract_path_parameters ?P (render ?segs) =
     Inr ([path_variable_param ''y'' ''x''], [plain_param ''spec''], ''/a/{y}/b/{w}'',
          [not_found_message ''w'' ''/a/{x}/b/{w}''])"
    unfolding rs by (simp add: reconcile_eval)
  have f: "finditer ''/a/{y}/b/{w}'' = [''y'', ''w'']" by (simp add: newline_def)
  from wf n e
    placeholders_named_or_reported [of ?segs ?P "[path_variable_param ''y'' ''x'']"
      "[plain_param ''spec'']" "''/a/{y}/b/{w}''" "[not_found_message ''w'' ''/a/{x}/b/{w}'']"]
  have "\<forall>t \<in> set (finditer ''/a/{y}/b/{w}'').
        (\<exists>p \<in> set [path_variable_param ''y'' ''x'']. name p = t) \<or>
        (t \<in> set (finditer (render ?segs)) \<and>
         not_found_message t (render ?segs) \<in> set [not_found_message ''w'' ''/a/{x}/b/{w}''] \<and>
         (\<forall>q \<in> set [plain_param ''spec'']. is_param_path_variable q t = Inr False))"
    by blast
  then have "list_all (\<lambda>t. (\<exists>p \<in> set [path_variable_param ''y'' ''x'']. name p = t) \<or>
                 not_found_message t ''/a/{x}/b/{w}'' \<in>
                   set [not_found_message ''w'' ''/a/{x}/b/{w}''])
     (finditer ''/a/{y}/b/{w}'')"
    unfolding rs list_all_iff by blast
  with wf n e f show ?thesis by blast
qed

text \<open>
  The claim as the specification states it fails: the placeholder \<open>cluster\<close> matches no
  parameter, stays in the returned URL, and the returned path group is empty.
\<close>

theorem unmatched_placeholder_counterexample:
  "extract_path_parameters [plain_param ''vm''] ''/vcenter/vm/{cluster}'' =
     Inr ([], [plain_param ''vm''], ''/vcenter/vm/{cluster}'',
          [not_found_message ''cluster'' ''/vcenter/vm/{cluster}'']) \<and>
   finditer ''/vcenter/vm/{cluster}'' = [''cluster''] \<and>
   ''cluster'' \<notin> name ` set []"
  by (simp add: reconcile_eval)

text \<open>
  Both conditions on the template and on the names are needed.  A name with braces brings in
  placeholders that are no parameter's name, and in a template with a nested brace the
  replacement changes a placeholder that is not the one matched.
\<close>

lemma ill_formed_examples:
  "extract_path_parameters [path_variable_param ''x}{y'' ''a''] ''/{a}'' =
     Inr ([path_variable_param ''x}{y'' ''a''], [], ''/{x}{y}'', []) \<and>
   finditer ''/{x}{y}'' = [''x'', ''y''] \<and>
   extract_path_parameters [path_variable_param ''n'' ''t''] ''{x{t}/{t}'' =
     Inr ([path_variable_param ''n'' ''t''], [], ''{x{n}/{n}'',
          [not_found_message ''x{t'' ''{x{t}/{t}'']) \<and>
   finditer ''{x{t}/{t}'' = [''x{t'', ''t''] \<and>
   finditer ''{x{n}/{n}'' = [''x{n'', ''n'']"
  by (simp add: reconcile_eval)

end
